theory Spec2Isabelle
  imports Main "HOL-Library.Sublist" "HOL-Library.Multiset"
begin

section \<open>Strings\<close>

text \<open>
  Python strings are modelled as HOL strings, whose characters are the code points 0 to 255.
  The character classes below classify these code points the way Python's \<open>re\<close> (on \<open>str\<close>
  patterns) and \<open>str.strip\<close> do: \<open>[A-Z]\<close>, \<open>[a-z]\<close> and \<open>\d\<close> hold of ASCII characters
  only, \<open>\w\<close> and \<open>\s\<close> also of the letters, numbers and spaces between 128 and 255. Text with
  a code point above 255 is outside the model.
\<close>

definition is_upper :: "char \<Rightarrow> bool" where
  "is_upper c = (let n = (of_char c :: nat) in 65 \<le> n \<and> n \<le> 90)"

definition is_lower :: "char \<Rightarrow> bool" where
  "is_lower c = (let n = (of_char c :: nat) in 97 \<le> n \<and> n \<le> 122)"

definition is_alpha :: "char \<Rightarrow> bool" where
  "is_alpha c = (is_upper c \<or> is_lower c)"

definition is_digit :: "char \<Rightarrow> bool" where
  "is_digit c = (let n = (of_char c :: nat) in 48 \<le> n \<and> n \<le> 57)"

text \<open>The characters from 128 to 255 for which \<open>str.isalnum\<close> holds: the ordinal indicators,
  the superscripts two, three and one, the micro sign, the three fractions, and the letters
  from 0xC0 to 0xFF except the multiplication and the division sign.\<close>

definition is_latin1_alnum :: "char \<Rightarrow> bool" where
  "is_latin1_alnum c =
     (let n = (of_char c :: nat) in
        n = 170 \<or> n = 178 \<or> n = 179 \<or> n = 181 \<or> n = 185 \<or> n = 186
        \<or> (188 \<le> n \<and> n \<le> 190) \<or> (192 \<le> n \<and> n \<le> 214)
        \<or> (216 \<le> n \<and> n \<le> 246) \<or> (248 \<le> n \<and> n \<le> 255))"

text \<open>\<open>\w\<close>: letters, digits and the underscore.\<close>

definition is_word :: "char \<Rightarrow> bool" where
  "is_word c = (is_alpha c \<or> is_digit c \<or> c = CHR ''_'' \<or> is_latin1_alnum c)"

text \<open>\<open>\s\<close> and the characters \<open>str.strip()\<close> removes: tab, line feed, vertical tab,
  form feed, carriage return, the four separators 0x1C to 0x1F, the space, the next-line
  control 0x85 and the no-break space 0xA0.\<close>

definition is_space :: "char \<Rightarrow> bool" where
  "is_space c =
     (let n = (of_char c :: nat) in
        (9 \<le> n \<and> n \<le> 13) \<or> (28 \<le> n \<and> n \<le> 32) \<or> n = 133 \<or> n = 160)"

definition to_lower :: "char \<Rightarrow> char" where
  "to_lower c = (if is_upper c then char_of ((of_char c :: nat) + 32) else c)"

definition newline :: char where
  "newline = CHR 0x0A"

definition apostrophe :: char where
  "apostrophe = CHR 0x27"

text \<open>\<open>sep.join(xs)\<close>.\<close>

fun py_join :: "string \<Rightarrow> string list \<Rightarrow> string" where
  "py_join sep [] = []"
| "py_join sep [x] = x"
| "py_join sep (x # y # ys) = x @ sep @ py_join sep (y # ys)"

text \<open>\<open>s.strip()\<close>.\<close>

definition py_strip :: "string \<Rightarrow> string" where
  "py_strip s = rev (dropWhile is_space (rev (dropWhile is_space s)))"

text \<open>\<open>s.replace(old, new)\<close> for a one-character \<open>old\<close>.\<close>

definition replace_char :: "char \<Rightarrow> string \<Rightarrow> string \<Rightarrow> string" where
  "replace_char old new s = concat (map (\<lambda>c. if c = old then new else [c]) s)"

section \<open>The prompt builder and the link builder\<close>

text \<open>
  \<^verbatim>\<open>
  def generate_prompt(symbols, questions):
      if questions:
          q = questions[0]
      else:
          q = "Approfondisci uno dei seguenti concetti: " + ", ".join(symbols[:5])
      return f"Rispondi in modo rigoroso e simbolico alla domanda: '{q}'. Usa i simboli chiave: {', '.join(symbols[:8])}."
  \<close>
\<close>

definition generate_prompt :: "string list \<Rightarrow> string list \<Rightarrow> string" where
  "generate_prompt symbols questions =
     (let q = (case questions of
                 q0 # _ \<Rightarrow> q0
               | [] \<Rightarrow> ''Approfondisci uno dei seguenti concetti: '' @ py_join '', '' (take 5 symbols))
      in ''Rispondi in modo rigoroso e simbolico alla domanda: '' @ [apostrophe] @ q @ [apostrophe]
           @ ''. Usa i simboli chiave: '' @ py_join '', '' (take 8 symbols) @ ''.'')"

text \<open>
  \<^verbatim>\<open>
  def web_search(symbols, question):
      base = "https://en.wikipedia.org/wiki/"
      links = [base + s.replace(" ", "_") for s in symbols[:3]]
      links.append("https://arxiv.org/search/?query=" + "+".join(symbols[:3]) + "&searchtype=all")
      return links
  \<close>
\<close>

definition web_search :: "string list \<Rightarrow> string \<Rightarrow> string list" where
  "web_search symbols question =
     map (\<lambda>s. ''https://en.wikipedia.org/wiki/'' @ replace_char CHR '' '' ''_'' s) (take 3 symbols)
       @ [''https://arxiv.org/search/?query='' @ py_join ''+'' (take 3 symbols) @ ''&searchtype=all'']"

section \<open>The roadmap\<close>

text \<open>
  The roadmap is the JSON object of \<^verbatim>\<open>mia_symbolic_roadmap.json\<close>. The orchestrator and the
  generator share the file. Keys that every writer of the file sets are fields; keys that the
  orchestrator's own default roadmap lacks are optional. The entries of \<open>focus_symbols\<close> and
  \<open>open_questions\<close> are strings for the orchestrator and JSON objects for the generator,
  hence the two type parameters.
\<close>

type_synonym json_obj = "(string \<times> string) list"

record meta_info =
  created :: string
  last_updated :: string
  version :: string
  total_symbols :: nat
  total_questions :: nat

record ('s, 'q) roadmap =
  metadata :: "meta_info option"
  focus_symbols :: "'s list"
  open_questions :: "'q list"
  operational_recommendations :: "json_obj list"
  symbolic_connections :: "json_obj list option"
  web_sources :: "json_obj list option"
  peer_reviews :: "json_obj list option"

text \<open>
  \<^verbatim>\<open>
  if os.path.exists(ROADMAP_FILE):
      with open(ROADMAP_FILE, "r", encoding="utf-8") as f:
          roadmap = json.load(f)
  else:
      roadmap = {"focus_symbols": [], "open_questions": [], "operational_recommendations": []}
  \<close>
  The file is \<open>None\<close> when it does not exist.
\<close>

definition default_roadmap :: "(string, string) roadmap" where
  "default_roadmap =
     \<lparr>metadata = None, focus_symbols = [], open_questions = [], operational_recommendations = [],
      symbolic_connections = None, web_sources = None, peer_reviews = None\<rparr>"

definition load_roadmap :: "(string, string) roadmap option \<Rightarrow> (string, string) roadmap" where
  "load_roadmap file = (case file of Some r \<Rightarrow> r | None \<Rightarrow> default_roadmap)"

section \<open>Errors, the outside world and the program state\<close>

text \<open>The exceptions the modelled code can raise, each with its message.\<close>

datatype error =
    RequestException string
  | JSONDecodeError string
  | KeyError string
  | ParserError string
  | TypeError string

fun str_of_error :: "error \<Rightarrow> string" where
  "str_of_error (RequestException m) = m"
| "str_of_error (JSONDecodeError m) = m"
| "str_of_error (KeyError m) = m"
| "str_of_error (ParserError m) = m"
| "str_of_error (TypeError m) = m"

text \<open>
  What \<open>requests.post\<close> does: it raises, or it returns a response whose body is not JSON
  (\<open>None\<close>) or is a JSON object.
\<close>

datatype post_reply = PostRaises error | PostBody "json_obj option"

text \<open>
  The outside world of one run: the answer to the n-th POST and to the n-th GET (each may
  depend on what is sent), what the HTML parser makes of a page, and the order in which
  Python iterates over a set built from a given sequence of insertions.
\<close>

record env =
  post :: "nat \<Rightarrow> string \<Rightarrow> post_reply"
  get_html :: "nat \<Rightarrow> string \<Rightarrow> error + string"
  soup_text :: "string \<Rightarrow> error + string"
  set_iter :: "string list \<Rightarrow> string list"

text \<open>
  The iteration order of a set is any enumeration of its elements without repetition.
\<close>

definition valid_set_iter :: "(string list \<Rightarrow> string list) \<Rightarrow> bool" where
  "valid_set_iter f = (\<forall>xs. set (f xs) = set xs \<and> distinct (f xs))"

text \<open>
  What the program does to the world, in order: a cycle starts, a POST is sent with a prompt
  (and comes back with a text or an exception), a page is requested, the program sleeps for
  some seconds, the roadmap is written to the file.
\<close>

datatype event =
    EvCycle nat
  | EvPost string "error + string"
  | EvGet string
  | EvSleep nat
  | EvSave "(string, string) roadmap"

text \<open>
  The state of the orchestrator: the global variable \<open>roadmap\<close>, the roadmap file, the
  number of POST and GET requests made so far, and the log of events. Printing is left out.
\<close>

record pstate =
  roadmap_var :: "(string, string) roadmap"
  roadmap_file :: "(string, string) roadmap option"
  posts :: nat
  gets :: nat
  log :: "event list"

definition init_state :: "(string, string) roadmap option \<Rightarrow> pstate" where
  "init_state file =
     \<lparr>roadmap_var = load_roadmap file, roadmap_file = file, posts = 0, gets = 0, log = []\<rparr>"

definition sleep :: "nat \<Rightarrow> pstate \<Rightarrow> pstate" where
  "sleep secs s = s\<lparr>log := log s @ [EvSleep secs]\<rparr>"

section \<open>The generation client and the source fetcher\<close>

text \<open>
  \<^verbatim>\<open>
  def ask_ollama(prompt, model=OLLAMA_MODEL):
      response = requests.post(OLLAMA_URL, json={"model": model, "prompt": prompt, "stream": False})
      return response.json()["response"]
  \<close>
\<close>

definition ask_ollama :: "env \<Rightarrow> string \<Rightarrow> pstate \<Rightarrow> (error + string) \<times> pstate" where
  "ask_ollama e prompt s =
     (let res = (case post e (posts s) prompt of
                   PostRaises x \<Rightarrow> Inl x
                 | PostBody None \<Rightarrow> Inl (JSONDecodeError ''Expecting value'')
                 | PostBody (Some obj) \<Rightarrow>
                     (case map_of obj ''response'' of
                        None \<Rightarrow> Inl (KeyError ''response'')
                      | Some t \<Rightarrow> Inr t))
      in (res, s\<lparr>posts := Suc (posts s), log := log s @ [EvPost prompt res]\<rparr>))"

text \<open>
  \<^verbatim>\<open>
  def scrape_url(url):
      try:
          html = requests.get(url, timeout=10).text
          soup = BeautifulSoup(html, "html.parser")
          return soup.get_text()[:2000]
      except Exception as e:
          return f"[Errore scraping {url}: {e}]"
  \<close>
  The body of the \<open>try\<close> is a computation that may raise; the handler turns every
  exception into the diagnostic text.
\<close>

definition scrape_body :: "env \<Rightarrow> string \<Rightarrow> pstate \<Rightarrow> error + string" where
  "scrape_body e url s =
     (case get_html e (gets s) url of
        Inl x \<Rightarrow> Inl x
      | Inr html \<Rightarrow>
          (case soup_text e html of
             Inl x \<Rightarrow> Inl x
           | Inr t \<Rightarrow> Inr (take 2000 t)))"

definition scrape_url :: "env \<Rightarrow> string \<Rightarrow> pstate \<Rightarrow> (error + string) \<times> pstate" where
  "scrape_url e url s =
     (let s' = s\<lparr>gets := Suc (gets s), log := log s @ [EvGet url]\<rparr> in
      case scrape_body e url s of
        Inr t \<Rightarrow> (Inr t, s')
      | Inl x \<Rightarrow> (Inr (''[Errore scraping '' @ url @ '': '' @ str_of_error x @ '']''), s'))"

section \<open>Regular expressions\<close>

text \<open>
  Python's \<open>re\<close> is a backtracking matcher: at a position it explores the ways a pattern
  can match in a fixed order of preference (the first alternative first, a greedy repetition
  longest first, a lazy one shortest first) and takes the first way that lets the whole
  pattern match. A pattern is modelled by the function that, from a position of the subject
  string, lists every state a match can end in, in that order of preference; the match the
  engine reports is the head of the list. A state is the current position and the span of
  capture group 1, once the group has been closed.
\<close>

type_synonym mstate = "nat \<times> (nat \<times> nat) option"
type_synonym rx = "string \<Rightarrow> mstate \<Rightarrow> mstate list"

text \<open>One character of a class.\<close>

definition rx_cls :: "(char \<Rightarrow> bool) \<Rightarrow> rx" where
  "rx_cls P s m = (case m of (i, g) \<Rightarrow> if i < length s \<and> P (s ! i) then [(Suc i, g)] else [])"

text \<open>A literal text; under \<open>re.IGNORECASE\<close> (\<open>ci\<close>) letters match in either case.\<close>

definition rx_lit :: "bool \<Rightarrow> string \<Rightarrow> rx" where
  "rx_lit ci lit s m =
     (case m of (i, g) \<Rightarrow>
        let sub = take (length lit) (drop i s) in
        if (if ci then map to_lower sub = map to_lower lit else sub = lit)
        then [(i + length lit, g)] else [])"

definition rx_seq :: "rx \<Rightarrow> rx \<Rightarrow> rx" where
  "rx_seq a b s m = concat (map (b s) (a s m))"

definition rx_eps :: rx where
  "rx_eps s m = [m]"

definition rx_seqs :: "rx list \<Rightarrow> rx" where
  "rx_seqs rs = foldr rx_seq rs rx_eps"

text \<open>\<open>a|b|...\<close>: the alternatives in the order written.\<close>

definition rx_alts :: "rx list \<Rightarrow> rx" where
  "rx_alts rs s m = concat (map (\<lambda>r. r s m) rs)"

text \<open>The number of characters of a class in a row from position \<open>i\<close>.\<close>

definition run_length :: "(char \<Rightarrow> bool) \<Rightarrow> string \<Rightarrow> nat \<Rightarrow> nat" where
  "run_length P s i = length (takeWhile P (drop i s))"

text \<open>\<open>[...]{n,}\<close> (and \<open>*\<close>, \<open>+\<close>), greedy: the longest run first.\<close>

definition rx_many :: "nat \<Rightarrow> (char \<Rightarrow> bool) \<Rightarrow> rx" where
  "rx_many n P s m =
     (case m of (i, g) \<Rightarrow> map (\<lambda>k. (i + k, g)) (rev [n ..< Suc (run_length P s i)]))"

text \<open>\<open>[...]+?\<close>, lazy: the shortest run first.\<close>

definition rx_many_lazy :: "nat \<Rightarrow> (char \<Rightarrow> bool) \<Rightarrow> rx" where
  "rx_many_lazy n P s m =
     (case m of (i, g) \<Rightarrow> map (\<lambda>k. (i + k, g)) [n ..< Suc (run_length P s i)])"

text \<open>\<open>c?\<close>, greedy: with the character first, then without.\<close>

definition rx_opt :: "(char \<Rightarrow> bool) \<Rightarrow> rx" where
  "rx_opt P s m = rx_cls P s m @ [m]"

text \<open>Capture group 1 around a pattern.\<close>

definition rx_group :: "rx \<Rightarrow> rx" where
  "rx_group r s m = (case m of (i, g) \<Rightarrow> map (\<lambda>(j, _). (j, Some (i, j))) (r s m))"

text \<open>\<open>\b\<close>: exactly one of the characters before and after the position is a word character.\<close>

definition rx_wordb :: rx where
  "rx_wordb s m =
     (case m of (i, g) \<Rightarrow>
        let word_before = (0 < i \<and> i \<le> length s \<and> is_word (s ! (i - 1)));
            word_after = (i < length s \<and> is_word (s ! i))
        in if word_before \<noteq> word_after then [m] else [])"

text \<open>\<open>$\<close> without \<open>re.MULTILINE\<close>: the end of the string, or just before a final line feed.\<close>

definition rx_eos :: rx where
  "rx_eos s m =
     (case m of (i, g) \<Rightarrow>
        if i = length s \<or> (Suc i = length s \<and> s ! i = newline) then [m] else [])"

text \<open>The text of group 1 of a match, \<open>None\<close> when the group took no part.\<close>

definition group1 :: "string \<Rightarrow> mstate \<Rightarrow> string option" where
  "group1 s m = (case snd m of None \<Rightarrow> None | Some (a, b) \<Rightarrow> Some (take (b - a) (drop a s)))"

text \<open>
  \<open>re.search\<close>: the match at the leftmost position that has one.
\<close>

fun first_some :: "('a \<Rightarrow> 'b option) \<Rightarrow> 'a list \<Rightarrow> 'b option" where
  "first_some f [] = None"
| "first_some f (x # xs) = (case f x of Some y \<Rightarrow> Some y | None \<Rightarrow> first_some f xs)"

definition match_at :: "rx \<Rightarrow> string \<Rightarrow> nat \<Rightarrow> mstate option" where
  "match_at r s i = (case r s (i, None) of [] \<Rightarrow> None | m # _ \<Rightarrow> Some m)"

definition re_search :: "rx \<Rightarrow> string \<Rightarrow> mstate option" where
  "re_search r s = first_some (match_at r s) [0 ..< Suc (length s)]"

text \<open>
  \<open>re.findall\<close> for a pattern with one group: the texts of group 1 of the matches found
  from left to right, each search starting where the previous match ended (a group that took
  no part gives the empty text). Every pattern of this program consumes at least one
  character; the scan moves on by at least one position in any case.
\<close>

function findall_from :: "rx \<Rightarrow> string \<Rightarrow> nat \<Rightarrow> string list" where
  "findall_from r s i =
     (if length s < i then []
      else case match_at r s i of
             None \<Rightarrow> findall_from r s (Suc i)
           | Some m \<Rightarrow>
               (case group1 s m of None \<Rightarrow> [] | Some t \<Rightarrow> t) # findall_from r s (max (fst m) (Suc i)))"
  by pat_completeness auto
termination
  by (relation "measure (\<lambda>(r, s, i). Suc (length s) - i)") auto

declare findall_from.simps [simp del]

definition re_findall :: "rx \<Rightarrow> string \<Rightarrow> string list" where
  "re_findall r s = findall_from r s 0"

section \<open>The text extractor\<close>

text \<open>
  \<^verbatim>\<open>
  def estrai_simboli_concetti(testo):
      simboli = set()
      simboli.update(re.findall(r"\b([A-Z][A-Za-z0-9_\-]{2,})\b", testo))
      simboli.update(re.findall(r"\b([A-Za-z]+\s(?:problem|theory|...|supernova))\b", testo, re.IGNORECASE))
      simboli.update(re.findall(r"\b([A-Za-z]+\d*)\^?\d*\b", testo))
      simboli = {s.strip() for s in simboli if len(s.strip()) > 2}
      return list(simboli)
  \<close>
\<close>

definition pat_capitalized :: rx where
  "pat_capitalized =
     rx_seqs [rx_wordb,
              rx_group (rx_seqs [rx_cls is_upper, rx_many 2 (\<lambda>c. is_alpha c \<or> is_digit c \<or> c = CHR ''_'' \<or> c = CHR ''-'')]),
              rx_wordb]"

definition domain_keywords :: "string list" where
  "domain_keywords =
    [''problem'', ''theory'', ''model'', ''force'', ''gravity'', ''energy'', ''wave'',
     ''system'', ''phenomena'', ''experiment'', ''framework'', ''trap'', ''cloud'', ''atom'',
     ''quantum'', ''scaling'', ''error'', ''data'', ''simulation'', ''universe'',
     ''dimension'', ''boson'', ''relativity'', ''symmetry'', ''inflation'', ''black hole'',
     ''wormhole'', ''neutron star'', ''supernova'']"

definition pat_keyword_phrase :: rx where
  "pat_keyword_phrase =
     rx_seqs [rx_wordb,
              rx_group (rx_seqs [rx_many 1 is_alpha, rx_cls is_space,
                                 rx_alts (map (rx_lit True) domain_keywords)]),
              rx_wordb]"

definition pat_token :: rx where
  "pat_token =
     rx_seqs [rx_wordb,
              rx_group (rx_seqs [rx_many 1 is_alpha, rx_many 0 is_digit]),
              rx_opt (\<lambda>c. c = CHR 0x5E),
              rx_many 0 is_digit,
              rx_wordb]"

text \<open>
  A Python set is modelled by the sequence of its insertions; iterating over it (in the
  set comprehension, and in \<open>list(simboli)\<close>) yields its elements in the order the run
  chooses, \<open>set_iter\<close>.
\<close>

definition estrai_simboli_concetti :: "env \<Rightarrow> string \<Rightarrow> string list" where
  "estrai_simboli_concetti e testo =
     (let simboli = re_findall pat_capitalized testo
                      @ re_findall pat_keyword_phrase testo
                      @ re_findall pat_token testo;
          simboli' = map py_strip (filter (\<lambda>s. length (py_strip s) > 2) (set_iter e simboli))
      in set_iter e simboli')"

text \<open>
  \<^verbatim>\<open>
  def estrai_domande_aperte(peer_review):
      domande = []
      pattern = r"(?:Open questions:|Domande aperte:|Questions:)([\s\S]+?)(?:\n\n|$)"
      match = re.search(pattern, peer_review, re.IGNORECASE)
      if match:
          blocco = match.group(1)
          domande += re.findall(r"\d+\.\s*(.+)", blocco)
      domande += re.findall(r"([A-Z][^\n\r\.!?]*\?)", peer_review)
      domande = [d.strip() for d in set(domande) if len(d.strip()) > 10]
      return domande
  \<close>
  \<open>match.group(1)\<close> is \<open>None\<close> for a group that took no part in the match, and
  \<open>re.findall\<close> on \<open>None\<close> raises a \<open>TypeError\<close>.
\<close>

definition pat_question_block :: rx where
  "pat_question_block =
     rx_seqs [rx_alts (map (rx_lit True) [''Open questions:'', ''Domande aperte:'', ''Questions:'']),
              rx_group (rx_many_lazy 1 (\<lambda>c. True)),
              rx_alts [rx_lit True [newline, newline], rx_eos]]"

definition pat_numbered_line :: rx where
  "pat_numbered_line =
     rx_seqs [rx_many 1 is_digit, rx_cls (\<lambda>c. c = CHR ''.''), rx_many 0 is_space,
              rx_group (rx_many 1 (\<lambda>c. c \<noteq> newline))]"

definition pat_question_sentence :: rx where
  "pat_question_sentence =
     rx_group (rx_seqs [rx_cls is_upper,
                        rx_many 0 (\<lambda>c. c \<notin> {newline, CHR 0x0D, CHR ''.'', CHR ''!'', CHR ''?''}),
                        rx_cls (\<lambda>c. c = CHR ''?'')])"

definition estrai_domande_aperte :: "env \<Rightarrow> string \<Rightarrow> error + string list" where
  "estrai_domande_aperte e peer_review =
     (case (case re_search pat_question_block peer_review of
              None \<Rightarrow> Inr []
            | Some m \<Rightarrow>
                (case group1 peer_review m of
                   None \<Rightarrow> Inl (TypeError ''expected string or bytes-like object'')
                 | Some blocco \<Rightarrow> Inr (re_findall pat_numbered_line blocco))) of
        Inl x \<Rightarrow> Inl x
      | Inr domande \<Rightarrow>
          (let domande' = domande @ re_findall pat_question_sentence peer_review
           in Inr (map py_strip (filter (\<lambda>d. length (py_strip d) > 10) (set_iter e domande')))))"

section \<open>One cycle\<close>

text \<open>
  \<^verbatim>\<open>
      links = web_search(roadmap["focus_symbols"], ...)
      fonti = []
      for url in links:
          testo = scrape_url(url)
          fonti.append(testo[:500])
          time.sleep(1)
  \<close>
\<close>

fun scrape_all :: "env \<Rightarrow> string list \<Rightarrow> string list \<Rightarrow> pstate \<Rightarrow> (error + string list) \<times> pstate" where
  "scrape_all e [] fonti s = (Inr fonti, s)"
| "scrape_all e (url # links) fonti s =
     (case scrape_url e url s of
        (Inl x, s') \<Rightarrow> (Inl x, s')
      | (Inr testo, s') \<Rightarrow> scrape_all e links (fonti @ [take 500 testo]) (sleep 1 s'))"

definition peer_prompt :: "string \<Rightarrow> string list \<Rightarrow> string" where
  "peer_prompt risposta fonti =
     ''Risposta simbolica generata:'' @ [newline] @ risposta @ [newline, newline]
       @ ''Fonti web correlate:'' @ [newline] @ concat fonti @ [newline, newline]
       @ ''Fai una peer review simbolica, segnala punti deboli, suggerisci miglioramenti e nuove domande di ricerca. Elenca chiaramente le domande aperte o i dubbi che rimangono.''"

text \<open>
  The merge step that ends a cycle:
  \<^verbatim>\<open>
      roadmap["focus_symbols"] = list(set(roadmap["focus_symbols"] + simboli_risposta + simboli_review))
      roadmap["open_questions"] = domande_aperte
  \<close>
\<close>

definition merge_roadmap ::
  "env \<Rightarrow> (string, string) roadmap \<Rightarrow> string list \<Rightarrow> string list \<Rightarrow> string list
     \<Rightarrow> (string, string) roadmap" where
  "merge_roadmap e roadmap simboli_risposta simboli_review domande_aperte =
     roadmap\<lparr>focus_symbols := set_iter e (focus_symbols roadmap @ simboli_risposta @ simboli_review),
             open_questions := domande_aperte\<rparr>"

text \<open>
  \<open>ciclo_symbolic(roadmap, ciclo_num)\<close>. The argument \<open>roadmap\<close> is the object the global
  variable names, so the function reads and updates \<open>roadmap_var\<close>; an exception leaves the
  function with the state reached so far.
\<close>

definition ciclo_symbolic ::
  "env \<Rightarrow> nat \<Rightarrow> pstate \<Rightarrow> (error + (string, string) roadmap) \<times> pstate" where
  "ciclo_symbolic e ciclo_num s =
     (let s0 = s\<lparr>log := log s @ [EvCycle ciclo_num]\<rparr>;
          roadmap = roadmap_var s0;
          prompt = generate_prompt (focus_symbols roadmap) (open_questions roadmap)
      in case ask_ollama e prompt s0 of
           (Inl x, s1) \<Rightarrow> (Inl x, s1)
         | (Inr risposta, s1) \<Rightarrow>
             (let simboli_risposta = estrai_simboli_concetti e risposta;
                  links = web_search (focus_symbols roadmap)
                            (case open_questions roadmap of q # _ \<Rightarrow> q | [] \<Rightarrow> [])
              in case scrape_all e links [] s1 of
                   (Inl x, s2) \<Rightarrow> (Inl x, s2)
                 | (Inr fonti, s2) \<Rightarrow>
                     (case ask_ollama e (peer_prompt risposta fonti) s2 of
                        (Inl x, s3) \<Rightarrow> (Inl x, s3)
                      | (Inr review, s3) \<Rightarrow>
                          (let simboli_review = estrai_simboli_concetti e review
                           in case estrai_domande_aperte e review of
                                Inl x \<Rightarrow> (Inl x, s3)
                              | Inr domande_aperte \<Rightarrow>
                                  (let roadmap' = merge_roadmap e (roadmap_var s3) simboli_risposta
                                                    simboli_review domande_aperte
                                   in (Inr roadmap', s3\<lparr>roadmap_var := roadmap'\<rparr>))))))"

section \<open>The outer loop\<close>

definition CYCLES :: nat where
  "CYCLES = 5"

definition SLEEP_BETWEEN_CYCLES :: nat where
  "SLEEP_BETWEEN_CYCLES = 2"

text \<open>
  \<^verbatim>\<open>
  for ciclo in range(CYCLES):
      roadmap = ciclo_symbolic(roadmap, ciclo)
      visualizza_roadmap(roadmap)
      with open(ROADMAP_FILE, "w", encoding="utf-8") as f:
          json.dump(roadmap, f, indent=2, ensure_ascii=False)
      if not roadmap["open_questions"]:
          break
      time.sleep(SLEEP_BETWEEN_CYCLES)
  \<close>
  The loop runs over the list of cycle numbers; an exception of the cycle ends the program.
  Writing the file is taken to succeed.
\<close>

definition save_roadmap :: "pstate \<Rightarrow> pstate" where
  "save_roadmap s = s\<lparr>roadmap_file := Some (roadmap_var s), log := log s @ [EvSave (roadmap_var s)]\<rparr>"

fun main_loop :: "env \<Rightarrow> nat list \<Rightarrow> pstate \<Rightarrow> (error + unit) \<times> pstate" where
  "main_loop e [] s = (Inr (), s)"
| "main_loop e (ciclo # rest) s =
     (case ciclo_symbolic e ciclo s of
        (Inl x, s1) \<Rightarrow> (Inl x, s1)
      | (Inr roadmap, s1) \<Rightarrow>
          (let s2 = save_roadmap (s1\<lparr>roadmap_var := roadmap\<rparr>)
           in if open_questions (roadmap_var s2) = [] then (Inr (), s2)
              else main_loop e rest (sleep SLEEP_BETWEEN_CYCLES s2)))"

definition main :: "env \<Rightarrow> (string, string) roadmap option \<Rightarrow> (error + unit) \<times> pstate" where
  "main e file = main_loop e [0 ..< CYCLES] (init_state file)"

section \<open>The generator's roadmap update\<close>

text \<open>
  \<open>SymbolicGenerator.update_roadmap\<close> writes the same file. What its helpers return (new
  symbols, questions and sources chosen at random, the peer review of a subprocess or
  \<open>None\<close>, the time of day) is the input of the model.
  \<^verbatim>\<open>
      self.roadmap["focus_symbols"].extend(new_symbols)
      self.roadmap["open_questions"].extend(new_questions)
      self.roadmap["web_sources"].extend(new_sources)
      if peer_review:
          self.roadmap["peer_reviews"].append(peer_review)
      self.roadmap["metadata"]["last_updated"] = datetime.now().isoformat()
      self.roadmap["metadata"]["total_symbols"] = len(self.roadmap["focus_symbols"])
      self.roadmap["metadata"]["total_questions"] = len(self.roadmap["open_questions"])
      recommendations = [...]
      self.roadmap["operational_recommendations"] = recommendations
      with open(self.roadmap_file, 'w', encoding='utf-8') as f:
          json.dump(self.roadmap, f, indent=2, ensure_ascii=False)
      return self.roadmap
  \<close>
  A key the roadmap lacks raises \<open>KeyError\<close>, after the updates made before it. A peer
  review is a JSON object; the empty object and \<open>None\<close> are false.
\<close>

record gen_input =
  new_symbols :: "json_obj list"
  new_questions :: "json_obj list"
  new_sources :: "json_obj list"
  peer_review :: "json_obj option"
  now :: string

record gstate =
  self_roadmap :: "(json_obj, json_obj) roadmap"
  gen_file :: "(json_obj, json_obj) roadmap option"

fun str_of_nat :: "nat \<Rightarrow> string" where
  "str_of_nat n =
     (if n < 10 then [char_of (48 + n)] else str_of_nat (n div 10) @ [char_of (48 + n mod 10)])"

declare str_of_nat.simps [simp del]

definition recommendations :: "gen_input \<Rightarrow> json_obj list" where
  "recommendations inp =
     [[(''type'', ''symbol_connection''),
       (''description'', ''Esplora connessioni tra '' @ str_of_nat (length (new_symbols inp)) @ '' nuovi simboli''),
       (''priority'', ''high'')],
      [(''type'', ''question_resolution''),
       (''description'', ''Risolvi '' @ str_of_nat (length (new_questions inp)) @ '' domande aperte''),
       (''priority'', ''medium'')],
      [(''type'', ''source_validation''),
       (''description'', ''Valida fonti web estratte''),
       (''priority'', ''low'')]]"

definition update_roadmap ::
  "gen_input \<Rightarrow> gstate \<Rightarrow> (error + (json_obj, json_obj) roadmap) \<times> gstate" where
  "update_roadmap inp g =
     (let r1 = (self_roadmap g)\<lparr>focus_symbols := focus_symbols (self_roadmap g) @ new_symbols inp\<rparr>;
          r2 = r1\<lparr>open_questions := open_questions r1 @ new_questions inp\<rparr>
      in case web_sources r2 of
           None \<Rightarrow> (Inl (KeyError ''web_sources''), g\<lparr>self_roadmap := r2\<rparr>)
         | Some ws \<Rightarrow>
             (let r3 = r2\<lparr>web_sources := Some (ws @ new_sources inp)\<rparr>
              in case (case peer_review inp of
                         None \<Rightarrow> Inr r3
                       | Some review \<Rightarrow>
                           if review = [] then Inr r3
                           else (case peer_reviews r3 of
                                   None \<Rightarrow> Inl (KeyError ''peer_reviews'')
                                 | Some prs \<Rightarrow> Inr (r3\<lparr>peer_reviews := Some (prs @ [review])\<rparr>))) of
                   Inl x \<Rightarrow> (Inl x, g\<lparr>self_roadmap := r3\<rparr>)
                 | Inr r4 \<Rightarrow>
                     (case metadata r4 of
                        None \<Rightarrow> (Inl (KeyError ''metadata''), g\<lparr>self_roadmap := r4\<rparr>)
                      | Some m \<Rightarrow>
                          (let m' = m\<lparr>last_updated := now inp,
                                      total_symbols := length (focus_symbols r4),
                                      total_questions := length (open_questions r4)\<rparr>;
                               r5 = r4\<lparr>metadata := Some m',
                                       operational_recommendations := recommendations inp\<rparr>
                           in (Inr r5, \<lparr>self_roadmap = r5, gen_file = Some r5\<rparr>)))))"

section \<open>Notions used to state the properties\<close>

text \<open>The events of the fetch loop inside a cycle: page requests and one-second pauses.\<close>

fun scrape_event :: "event \<Rightarrow> bool" where
  "scrape_event (EvGet _) = True"
| "scrape_event (EvSleep secs) = (secs = 1)"
| "scrape_event _ = False"

text \<open>The events a call adds to the log.\<close>

definition new_events :: "pstate \<Rightarrow> pstate \<Rightarrow> event list" where
  "new_events s s' = drop (length (log s)) (log s')"

text \<open>The events inside a cycle: requests and one-second pauses.\<close>

fun cycle_event :: "event \<Rightarrow> bool" where
  "cycle_event (EvPost _ _) = True"
| "cycle_event ev = scrape_event ev"

fun is_cycle_start :: "event \<Rightarrow> bool" where
  "is_cycle_start (EvCycle _) = True"
| "is_cycle_start _ = False"

text \<open>
  The shape of the log of the outer loop over the cycle numbers \<open>cs\<close>: no cycle at all;
  a cycle that raised; a cycle that completed and was saved with no open question, after
  which nothing happens; or a cycle that completed and was saved with open questions,
  followed by the pause between cycles and the log of the loop over the remaining numbers.
  The questions saved are those extracted from the review, the last POST of the cycle.
\<close>

inductive loop_trace :: "env \<Rightarrow> nat list \<Rightarrow> event list \<Rightarrow> bool" for e :: env where
  idle: "loop_trace e [] []"
| aborted: "list_all cycle_event body \<Longrightarrow> loop_trace e (c # cs) (EvCycle c # body)"
| converged:
    "list_all cycle_event body \<Longrightarrow> estrai_domande_aperte e review = Inr (open_questions r)
     \<Longrightarrow> open_questions r = []
     \<Longrightarrow> loop_trace e (c # cs) (EvCycle c # body @ [EvPost p (Inr review), EvSave r])"
| continued:
    "list_all cycle_event body \<Longrightarrow> estrai_domande_aperte e review = Inr (open_questions r)
     \<Longrightarrow> open_questions r \<noteq> [] \<Longrightarrow> loop_trace e cs evs
     \<Longrightarrow> loop_trace e (c # cs)
           (EvCycle c # body @ [EvPost p (Inr review), EvSave r, EvSleep SLEEP_BETWEEN_CYCLES] @ evs)"

text \<open>
  The log of the outer loop over the cycle numbers \<open>cs\<close>, event by event. Nothing is
  logged when no number is left. Otherwise the first cycle starts and sends the generation
  request. If that raises, the log ends. If not, the fetches follow and the review
  request; if that raises, the log ends. If not, the roadmap is saved with the questions
  extracted from the review: with none, the log ends; with some, the pause between cycles
  follows, and then the log of the loop over the remaining numbers.
\<close>

inductive loop_log :: "env \<Rightarrow> nat list \<Rightarrow> event list \<Rightarrow> bool" for e :: env where
  done_all: "loop_log e [] []"
| generation_raised: "loop_log e (c # cs) [EvCycle c, EvPost p (Inl x)]"
| review_raised:
    "list_all scrape_event evs
     \<Longrightarrow> loop_log e (c # cs) (EvCycle c # EvPost p (Inr t) # evs @ [EvPost p2 (Inl x)])"
| no_questions:
    "list_all scrape_event evs \<Longrightarrow> estrai_domande_aperte e review = Inr (open_questions r)
     \<Longrightarrow> open_questions r = []
     \<Longrightarrow> loop_log e (c # cs)
           (EvCycle c # EvPost p (Inr t) # evs @ [EvPost p2 (Inr review), EvSave r])"
| next_cycle:
    "list_all scrape_event evs \<Longrightarrow> estrai_domande_aperte e review = Inr (open_questions r)
     \<Longrightarrow> open_questions r \<noteq> [] \<Longrightarrow> loop_log e cs rest
     \<Longrightarrow> loop_log e (c # cs)
           (EvCycle c # EvPost p (Inr t) # evs
              @ [EvPost p2 (Inr review), EvSave r, EvSleep SLEEP_BETWEEN_CYCLES] @ rest)"

section \<open>Concrete worlds\<close>

text \<open>
  A world in which the model answers every prompt with the empty text and every page
  request times out; sets iterate in the order of first insertion.
\<close>

definition env_quiet :: env where
  "env_quiet =
     \<lparr>post = (\<lambda>n p. PostBody (Some [(''response'', [])])),
      get_html = (\<lambda>n u. Inl (RequestException ''timed out'')),
      soup_text = (\<lambda>h. Inr h),
      set_iter = remdups\<rparr>"

text \<open>The same world with sets iterated in the opposite order.\<close>

definition env_rev :: env where
  "env_rev = env_quiet\<lparr>set_iter := (\<lambda>xs. rev (remdups xs))\<rparr>"

text \<open>A world in which the generation service is unreachable.\<close>

definition env_down :: env where
  "env_down = env_quiet\<lparr>post := (\<lambda>n p. PostRaises (RequestException ''connection refused''))\<rparr>"

text \<open>
  A world in which the service answers the first request and then returns a body without
  the \<open>response\<close> field.
\<close>

definition env_no_field :: env where
  "env_no_field =
     env_quiet\<lparr>post := (\<lambda>n p. if n = 0 then PostBody (Some [(''response'', ''Plasma'')])
                               else PostBody (Some [(''error'', ''model not found'')]))\<rparr>"

text \<open>
  A world in which the first review raises a question and the second raises none.
\<close>

definition env_demo :: env where
  "env_demo =
     env_quiet\<lparr>post := (\<lambda>n p. if n = 0 then PostBody (Some [(''response'', ''Ion'')])
                               else if n = 1 then PostBody (Some [(''response'', ''Why is it so?'')])
                               else if n = 2 then PostBody (Some [(''response'', ''Gas'')])
                               else PostBody (Some [(''response'', ''Ok.'')]))\<rparr>"

text \<open>
  A roadmap file as the generator leaves it, with metadata, no symbols, one open question and
  no peer review so far.
\<close>

definition roadmap_start :: "(string, string) roadmap" where
  "roadmap_start =
     \<lparr>metadata = Some \<lparr>created = ''2025-01-01T00:00:00'', last_updated = ''2025-01-01T00:00:00'',
                        version = ''2.0'', total_symbols = 0, total_questions = 1\<rparr>,
      focus_symbols = [], open_questions = [''Q1?''], operational_recommendations = [],
      symbolic_connections = Some [], web_sources = Some [], peer_reviews = Some []\<rparr>"

text \<open>The run of the program in the world \<open>env_demo\<close> from that file: two cycles.\<close>

definition roadmap_after0 :: "(string, string) roadmap" where
  "roadmap_after0 =
     roadmap_start\<lparr>focus_symbols := [''Ion'', ''Why''], open_questions := [''Why is it so?'']\<rparr>"

definition roadmap_after1 :: "(string, string) roadmap" where
  "roadmap_after1 =
     roadmap_start\<lparr>focus_symbols := [''Ion'', ''Why'', ''Gas''], open_questions := []\<rparr>"

definition demo_log0 :: "event list" where
  "demo_log0 =
     [EvCycle 0,
      EvPost (generate_prompt [] [''Q1?'']) (Inr ''Ion''),
      EvGet ''https://arxiv.org/search/?query=&searchtype=all'', EvSleep 1,
      EvPost (peer_prompt ''Ion''
                [''[Errore scraping https://arxiv.org/search/?query=&searchtype=all: timed out]''])
             (Inr ''Why is it so?'')]"

definition demo_log1 :: "event list" where
  "demo_log1 =
     [EvPost (generate_prompt [''Ion'', ''Why''] [''Why is it so?'']) (Inr ''Gas''),
      EvGet ''https://en.wikipedia.org/wiki/Ion'', EvSleep 1,
      EvGet ''https://en.wikipedia.org/wiki/Why'', EvSleep 1,
      EvGet ''https://arxiv.org/search/?query=Ion+Why&searchtype=all'', EvSleep 1,
      EvPost (peer_prompt ''Gas''
                [''[Errore scraping https://en.wikipedia.org/wiki/Ion: timed out]'',
                 ''[Errore scraping https://en.wikipedia.org/wiki/Why: timed out]'',
                 ''[Errore scraping https://arxiv.org/search/?query=Ion+Why&searchtype=all: timed out]''])
             (Inr ''Ok.'')]"

text \<open>
  A world in which the page requested is up and its text reads like the diagnostic of a
  failed request.
\<close>

definition env_page :: env where
  "env_page = env_quiet\<lparr>get_html := (\<lambda>n u. Inr ''[Errore scraping u: timed out]'')\<rparr>"

text \<open>A world in which the page has 2001 characters of text.\<close>

definition env_long :: env where
  "env_long = env_quiet\<lparr>get_html := (\<lambda>n u. Inr (replicate 2001 CHR ''a''))\<rparr>"

text \<open>A world in which the request succeeds and the parser raises.\<close>

definition env_bad_markup :: env where
  "env_bad_markup =
     env_quiet\<lparr>get_html := (\<lambda>n u. Inr ''<''),
               soup_text := (\<lambda>h. Inl (ParserError ''bad markup''))\<rparr>"

text \<open>An input and a state of the generator.\<close>

definition gen_input0 :: gen_input where
  "gen_input0 =
     \<lparr>new_symbols = [[(''name'', ''Q_plasma'')], [(''name'', ''Lawson_criterion'')]],
      new_questions = [[(''text'', ''Come si confrontano tokamak e stellarator?'')]],
      new_sources = [[(''url'', ''https://www.iter.org/'')]],
      peer_review = Some [(''reviewer'', ''AutoReviewer''), (''confidence'', ''0.8'')],
      now = ''2025-01-02T00:00:00''\<rparr>"

definition gen_state0 :: gstate where
  "gen_state0 =
     \<lparr>self_roadmap =
        \<lparr>metadata = Some \<lparr>created = ''2025-01-01T00:00:00'', last_updated = ''2025-01-01T00:00:00'',
                           version = ''2.0'', total_symbols = 0, total_questions = 0\<rparr>,
         focus_symbols = [], open_questions = [], operational_recommendations = [],
         symbolic_connections = Some [], web_sources = Some [], peer_reviews = Some []\<rparr>,
      gen_file = None\<rparr>"

definition gen_roadmap1 :: "(json_obj, json_obj) roadmap" where
  "gen_roadmap1 =
     \<lparr>metadata = Some \<lparr>created = ''2025-01-01T00:00:00'', last_updated = ''2025-01-02T00:00:00'',
                        version = ''2.0'', total_symbols = 2, total_questions = 1\<rparr>,
      focus_symbols = [[(''name'', ''Q_plasma'')], [(''name'', ''Lawson_criterion'')]],
      open_questions = [[(''text'', ''Come si confrontano tokamak e stellarator?'')]],
      operational_recommendations = recommendations gen_input0,
      symbolic_connections = Some [],
      web_sources = Some [[(''url'', ''https://www.iter.org/'')]],
      peer_reviews = Some [[(''reviewer'', ''AutoReviewer''), (''confidence'', ''0.8'')]]\<rparr>"

text \<open>
  A state of the generator after it has loaded a file written by the orchestrator from its
  own default roadmap, which has no \<open>web_sources\<close>.
\<close>

definition gen_state_bare :: gstate where
  "gen_state_bare =
     \<lparr>self_roadmap =
        \<lparr>metadata = None, focus_symbols = [], open_questions = [], operational_recommendations = [],
         symbolic_connections = None, web_sources = None, peer_reviews = None\<rparr>,
      gen_file =
        Some \<lparr>metadata = None, focus_symbols = [], open_questions = [],
              operational_recommendations = [], symbolic_connections = None, web_sources = None,
              peer_reviews = None\<rparr>\<rparr>"

text \<open>
  A world in which every reply of the service is the same question, and the run of the
  program in it from no file: five cycles.
\<close>

definition env_chatty :: env where
  "env_chatty = env_quiet\<lparr>post := (\<lambda>n p. PostBody (Some [(''response'', ''Why is it so?'')]))\<rparr>"

definition roadmap_chatty :: "(string, string) roadmap" where
  "roadmap_chatty =
     default_roadmap\<lparr>focus_symbols := [''Why''], open_questions := [''Why is it so?'']\<rparr>"

definition chatty_first :: "event list" where
  "chatty_first =
     [EvPost (generate_prompt [] []) (Inr ''Why is it so?''),
      EvGet ''https://arxiv.org/search/?query=&searchtype=all'', EvSleep 1,
      EvPost (peer_prompt ''Why is it so?''
                [''[Errore scraping https://arxiv.org/search/?query=&searchtype=all: timed out]''])
             (Inr ''Why is it so?'')]"

definition chatty_next :: "event list" where
  "chatty_next =
     [EvPost (generate_prompt [''Why''] [''Why is it so?'']) (Inr ''Why is it so?''),
      EvGet ''https://en.wikipedia.org/wiki/Why'', EvSleep 1,
      EvGet ''https://arxiv.org/search/?query=Why&searchtype=all'', EvSleep 1,
      EvPost (peer_prompt ''Why is it so?''
                [''[Errore scraping https://en.wikipedia.org/wiki/Why: timed out]'',
                 ''[Errore scraping https://arxiv.org/search/?query=Why&searchtype=all: timed out]''])
             (Inr ''Why is it so?'')]"

definition chatty_pre :: "event list" where
  "chatty_pre =
     EvCycle 0 # chatty_first
       @ [EvSave roadmap_chatty, EvSleep 2, EvCycle 1] @ chatty_next
       @ [EvSave roadmap_chatty, EvSleep 2, EvCycle 2] @ chatty_next
       @ [EvSave roadmap_chatty, EvSleep 2, EvCycle 3] @ chatty_next
       @ [EvSave roadmap_chatty, EvSleep 2, EvCycle 4] @ chatty_next"

section \<open>Iteration order of sets\<close>

lemma set_iter_set: "valid_set_iter f \<Longrightarrow> set (f xs) = set xs"
  by (simp add: valid_set_iter_def)

lemma set_iter_distinct: "valid_set_iter f \<Longrightarrow> distinct (f xs)"
  by (simp add: valid_set_iter_def)

lemma valid_set_iter_remdups: "valid_set_iter remdups"
  by (simp add: valid_set_iter_def)

lemma valid_env_quiet: "valid_set_iter (set_iter env_quiet)"
  by (simp add: env_quiet_def valid_set_iter_remdups)

section \<open>The merge of symbols is idempotent\<close>

text \<open>
  C1. For every roadmap \<open>R\<close> and every extraction result (the symbols of the reply, the
  symbols of the review and the questions), merging the same result a second time gives a
  \<open>focus_symbols\<close> list with the same set of symbols as merging it once, and of the same
  length: merging symbols that are already known does not grow the collection. This holds
  for every iteration order of sets.
\<close>

theorem merge_symbols_idempotent:
  assumes "valid_set_iter (set_iter e)"
  shows "set (focus_symbols (merge_roadmap e (merge_roadmap e R sr sv q) sr sv q))
           = set (focus_symbols (merge_roadmap e R sr sv q))
         \<and> length (focus_symbols (merge_roadmap e (merge_roadmap e R sr sv q) sr sv q))
           = length (focus_symbols (merge_roadmap e R sr sv q))"
proof -
  let ?once = "focus_symbols (merge_roadmap e R sr sv q)"
  let ?twice = "focus_symbols (merge_roadmap e (merge_roadmap e R sr sv q) sr sv q)"
  have s: "set ?twice = set ?once"
    using assms by (auto simp: merge_roadmap_def set_iter_set)
  have "distinct ?once" "distinct ?twice"
    using assms by (simp_all add: merge_roadmap_def set_iter_distinct)
  then have "length ?twice = length ?once"
    using s by (metis distinct_card)
  with s show ?thesis by simp
qed

theorem merge_symbols_idempotent_witness:
  "valid_set_iter (set_iter env_quiet)
   \<and> set (focus_symbols (merge_roadmap env_quiet (merge_roadmap env_quiet
          (default_roadmap\<lparr>focus_symbols := [''Q_plasma'', ''Lawson_criterion'']\<rparr>)
          [''Triple_product'', ''Lawson_criterion''] [''Q_plasma''] [])
          [''Triple_product'', ''Lawson_criterion''] [''Q_plasma''] []))
     = {''Q_plasma'', ''Lawson_criterion'', ''Triple_product''}
   \<and> length (focus_symbols (merge_roadmap env_quiet (merge_roadmap env_quiet
          (default_roadmap\<lparr>focus_symbols := [''Q_plasma'', ''Lawson_criterion'']\<rparr>)
          [''Triple_product'', ''Lawson_criterion''] [''Q_plasma''] [])
          [''Triple_product'', ''Lawson_criterion''] [''Q_plasma''] [])) = 3"
  using merge_symbols_idempotent [OF valid_env_quiet,
      of "default_roadmap\<lparr>focus_symbols := [''Q_plasma'', ''Lawson_criterion'']\<rparr>"
         "[''Triple_product'', ''Lawson_criterion'']" "[''Q_plasma'']" "[]"]
    valid_env_quiet
  by (auto simp add: merge_roadmap_def env_quiet_def default_roadmap_def)

section \<open>The generation prompt\<close>

lemma sublist_mid: "sublist x (ps @ x @ ss)"
  unfolding sublist_def by blast

text \<open>
  C9. The generation prompt is a function of the symbols and the questions alone. With at
  least one open question it is the fixed frame around the first question; with none it is
  the same frame around the request to elaborate on the first five symbols. In both cases
  the first eight symbols, joined by commas, follow as the key symbols. So the prompt
  contains the first question, or else the fallback request, and always the list of the
  first eight symbols.
\<close>

theorem generate_prompt_content:
  "generate_prompt symbols (q # qs) =
     ''Rispondi in modo rigoroso e simbolico alla domanda: '' @ [apostrophe] @ q @ [apostrophe]
       @ ''. Usa i simboli chiave: '' @ py_join '', '' (take 8 symbols) @ ''.''
   \<and> generate_prompt symbols [] =
     ''Rispondi in modo rigoroso e simbolico alla domanda: '' @ [apostrophe]
       @ ''Approfondisci uno dei seguenti concetti: '' @ py_join '', '' (take 5 symbols) @ [apostrophe]
       @ ''. Usa i simboli chiave: '' @ py_join '', '' (take 8 symbols) @ ''.''
   \<and> sublist q (generate_prompt symbols (q # qs))
   \<and> sublist (''Approfondisci uno dei seguenti concetti: '' @ py_join '', '' (take 5 symbols))
        (generate_prompt symbols [])
   \<and> sublist (py_join '', '' (take 8 symbols)) (generate_prompt symbols questions)"
proof -
  let ?head = "''Rispondi in modo rigoroso e simbolico alla domanda: '' @ [apostrophe]"
  let ?mid = "[apostrophe] @ ''. Usa i simboli chiave: ''"
  let ?ctx = "py_join '', '' (take 8 symbols)"
  let ?fallback = "''Approfondisci uno dei seguenti concetti: '' @ py_join '', '' (take 5 symbols)"
  have shape: "generate_prompt symbols qs' =
      ?head @ (case qs' of q0 # _ \<Rightarrow> q0 | [] \<Rightarrow> ?fallback) @ (?mid @ ?ctx @ ''.'')" for qs'
    by (simp add: generate_prompt_def)
  have e1: "generate_prompt symbols (q # qs) = ?head @ q @ (?mid @ ?ctx @ ''.'')"
    by (simp add: shape)
  have e2: "generate_prompt symbols [] = ?head @ ?fallback @ (?mid @ ?ctx @ ''.'')"
    by (simp add: shape)
  have s1: "sublist q (generate_prompt symbols (q # qs))"
    unfolding e1 by (rule sublist_mid)
  have s2: "sublist ?fallback (generate_prompt symbols [])"
    unfolding e2 by (rule sublist_mid)
  have "generate_prompt symbols questions =
      (?head @ (case questions of q0 # _ \<Rightarrow> q0 | [] \<Rightarrow> ?fallback) @ ?mid) @ ?ctx @ ''.''"
    by (simp add: shape)
  then have s3: "sublist ?ctx (generate_prompt symbols questions)"
    by (metis sublist_mid)
  from e1 e2 s1 s2 s3 show ?thesis by simp
qed

section \<open>Effects of the requests\<close>

lemma ask_ollama_effect:
  assumes "ask_ollama e p s = (res, s')"
  shows "roadmap_var s' = roadmap_var s" "roadmap_file s' = roadmap_file s"
        "log s' = log s @ [EvPost p res]" "posts s' = Suc (posts s)" "gets s' = gets s"
  using assms by (auto simp: ask_ollama_def Let_def)

lemma scrape_url_effect:
  assumes "scrape_url e u s = (res, s')"
  shows "roadmap_var s' = roadmap_var s" "roadmap_file s' = roadmap_file s"
        "log s' = log s @ [EvGet u]" "posts s' = posts s" "\<exists>t. res = Inr t"
  using assms by (auto simp: scrape_url_def Let_def split: sum.splits dest: sym)

lemma scrape_all_effect:
  assumes "scrape_all e links fonti s = (res, s')"
  shows "roadmap_var s' = roadmap_var s \<and> roadmap_file s' = roadmap_file s \<and> posts s' = posts s
         \<and> (\<exists>evs. log s' = log s @ evs \<and> list_all scrape_event evs) \<and> (\<exists>f. res = Inr f)"
  using assms
proof (induction links arbitrary: fonti s)
  case Nil
  then show ?case by auto
next
  case (Cons url links)
  obtain r1 s1 where u: "scrape_url e url s = (r1, s1)" by (cases "scrape_url e url s")
  from scrape_url_effect [OF u] obtain t where t: "r1 = Inr t" by blast
  from Cons.prems u t
  have rest: "scrape_all e links (fonti @ [take 500 t]) (sleep 1 s1) = (res, s')" by simp
  from Cons.IH [OF rest] obtain evs f where
    ih: "roadmap_var s' = roadmap_var (sleep 1 s1)" "roadmap_file s' = roadmap_file (sleep 1 s1)"
        "posts s' = posts (sleep 1 s1)"
        "log s' = log (sleep 1 s1) @ evs" "list_all scrape_event evs" "res = Inr f"
    by blast
  have "log s' = log s @ (EvGet url # EvSleep 1 # evs)"
    using ih(4) scrape_url_effect(3) [OF u] by (simp add: sleep_def)
  moreover have "list_all scrape_event (EvGet url # EvSleep 1 # evs)"
    using ih(5) by simp
  ultimately have "\<exists>evs. log s' = log s @ evs \<and> list_all scrape_event evs" by blast
  then show ?case
    using ih scrape_url_effect [OF u] by (simp add: sleep_def)
qed

section \<open>The extractors\<close>

lemma question_block_group:
  "m \<in> set (pat_question_block s m0) \<Longrightarrow> snd m \<noteq> None"
  by (auto simp: pat_question_block_def rx_seqs_def rx_seq_def rx_alts_def rx_lit_def
      rx_group_def rx_many_lazy_def rx_eos_def rx_eps_def Let_def split: if_splits prod.splits)

lemma first_some_in: "first_some f xs = Some y \<Longrightarrow> \<exists>x \<in> set xs. f x = Some y"
  by (induction xs) (auto split: option.splits)

lemma re_search_group:
  assumes "re_search pat_question_block s = Some m"
  shows "\<exists>t. group1 s m = Some t"
proof -
  from assms obtain i where "match_at pat_question_block s i = Some m"
    unfolding re_search_def by (blast dest: first_some_in)
  then have "m \<in> set (pat_question_block s (i, None))"
    by (auto simp: match_at_def split: list.splits)
  then have "snd m \<noteq> None" by (rule question_block_group)
  then show ?thesis by (auto simp: group1_def split: option.splits)
qed

lemma estrai_domande_aperte_Inr: "\<exists>qs. estrai_domande_aperte e t = Inr qs"
proof (cases "re_search pat_question_block t")
  case None
  then show ?thesis by (simp add: estrai_domande_aperte_def)
next
  case (Some m)
  with re_search_group obtain b where "group1 t m = Some b" by blast
  with Some show ?thesis by (simp add: estrai_domande_aperte_def)
qed

lemma findall_nil: "re_findall r [] = [] \<longleftrightarrow> r [] (0, None) = []"
  by (simp add: re_findall_def findall_from.simps [of r "[]" 0] findall_from.simps [of r "[]" "Suc 0"] match_at_def split: list.splits)


lemmas rx_defs = rx_seqs_def rx_seq_def rx_alts_def rx_lit_def rx_group_def rx_many_def
  rx_many_lazy_def rx_opt_def rx_cls_def rx_wordb_def rx_eos_def rx_eps_def run_length_def

lemma findall_empty_text:
  "re_findall pat_capitalized [] = []" "re_findall pat_keyword_phrase [] = []"
  "re_findall pat_token [] = []" "re_findall pat_question_sentence [] = []"
  by (simp_all add: findall_nil pat_capitalized_def pat_keyword_phrase_def pat_token_def
      pat_question_sentence_def rx_defs)

lemma search_empty_text: "re_search pat_question_block [] = None"
  by (simp add: re_search_def match_at_def pat_question_block_def rx_defs)

lemma set_iter_Nil: "valid_set_iter f \<Longrightarrow> f [] = []"
  using set_iter_set [of f "[]"] by simp

text \<open>
  C6. Neither extractor fails, on any text. The concept extractor performs no operation
  that can raise and its scans terminate, so it is a total function to lists; the question
  extractor, whose only fallible step is reading group 1 of the block match, always returns
  a list, because a block match always has its group. On the empty text both return the
  empty list, and so they do on any text in which none of their patterns matches.
\<close>

theorem extractors_total:
  assumes "valid_set_iter (set_iter e)"
  shows "(\<exists>qs. estrai_domande_aperte e testo = Inr qs)
       \<and> estrai_simboli_concetti e [] = []
       \<and> estrai_domande_aperte e [] = Inr []
       \<and> (re_findall pat_capitalized testo = [] \<and> re_findall pat_keyword_phrase testo = []
            \<and> re_findall pat_token testo = [] \<longrightarrow> estrai_simboli_concetti e testo = [])
       \<and> ((re_search pat_question_block testo = None
             \<or> (\<exists>m blocco. re_search pat_question_block testo = Some m
                   \<and> group1 testo m = Some blocco \<and> re_findall pat_numbered_line blocco = []))
            \<and> re_findall pat_question_sentence testo = []
            \<longrightarrow> estrai_domande_aperte e testo = Inr [])"
proof -
  note nil = set_iter_Nil [OF assms]
  have a: "\<exists>qs. estrai_domande_aperte e testo = Inr qs"
    by (rule estrai_domande_aperte_Inr)
  have b: "estrai_simboli_concetti e [] = []"
    by (simp add: estrai_simboli_concetti_def findall_empty_text nil)
  have c: "estrai_domande_aperte e [] = Inr []"
    by (simp add: estrai_domande_aperte_def findall_empty_text search_empty_text nil)
  have d: "estrai_simboli_concetti e testo = []"
    if "re_findall pat_capitalized testo = []" "re_findall pat_keyword_phrase testo = []"
       "re_findall pat_token testo = []"
    using that by (simp add: estrai_simboli_concetti_def nil)
  have f: "estrai_domande_aperte e testo = Inr []"
    if "re_search pat_question_block testo = None
          \<or> (\<exists>m blocco. re_search pat_question_block testo = Some m
                \<and> group1 testo m = Some blocco \<and> re_findall pat_numbered_line blocco = [])"
       "re_findall pat_question_sentence testo = []"
    using that by (auto simp: estrai_domande_aperte_def nil)
  from a b c d f show ?thesis by blast
qed

lemma mset_set_iter:
  assumes "valid_set_iter f" "valid_set_iter g"
  shows "mset (f xs) = mset (g xs)"
proof -
  have "mset (f xs) = mset_set (set xs)"
    using assms(1) by (metis mset_set_set set_iter_distinct set_iter_set)
  moreover have "mset (g xs) = mset_set (set xs)"
    using assms(2) by (metis mset_set_set set_iter_distinct set_iter_set)
  ultimately show ?thesis by simp
qed

lemma mset_set_iter_cong:
  assumes "valid_set_iter f" "valid_set_iter g" "set xs = set ys"
  shows "mset (f xs) = mset (g ys)"
proof -
  have "mset (f xs) = mset_set (set xs)"
    using assms(1) by (metis mset_set_set set_iter_distinct set_iter_set)
  moreover have "mset (g ys) = mset_set (set ys)"
    using assms(2) by (metis mset_set_set set_iter_distinct set_iter_set)
  ultimately show ?thesis using assms(3) by simp
qed

text \<open>
  C10. Two runs that differ only in the order in which sets are iterated extract the same
  strings from the same text: the lists returned by the concept extractor have the same
  elements (each once), and so have the lists returned by the question extractor; one is a
  rearrangement of the other.
\<close>

theorem extraction_same_up_to_order:
  assumes "valid_set_iter (set_iter e1)" and "valid_set_iter (set_iter e2)"
  shows "set (estrai_simboli_concetti e1 testo) = set (estrai_simboli_concetti e2 testo)
       \<and> mset (estrai_simboli_concetti e1 testo) = mset (estrai_simboli_concetti e2 testo)
       \<and> map_sum id set (estrai_domande_aperte e1 testo) = map_sum id set (estrai_domande_aperte e2 testo)
       \<and> map_sum id mset (estrai_domande_aperte e1 testo) = map_sum id mset (estrai_domande_aperte e2 testo)"
proof -
  let ?raw = "re_findall pat_capitalized testo @ re_findall pat_keyword_phrase testo
                @ re_findall pat_token testo"
  let ?keep = "\<lambda>s. length (py_strip s) > 2"
  have "set (map py_strip (filter ?keep (set_iter e1 ?raw)))
          = set (map py_strip (filter ?keep (set_iter e2 ?raw)))"
    using assms by (simp add: set_iter_set)
  then have m: "mset (estrai_simboli_concetti e1 testo) = mset (estrai_simboli_concetti e2 testo)"
    unfolding estrai_simboli_concetti_def Let_def
    by (rule mset_set_iter_cong [OF assms])
  then have s: "set (estrai_simboli_concetti e1 testo) = set (estrai_simboli_concetti e2 testo)"
    by (rule mset_eq_setD)
  have qm: "map_sum id mset (estrai_domande_aperte e1 testo)
              = map_sum id mset (estrai_domande_aperte e2 testo)"
    by (simp add: estrai_domande_aperte_def mset_set_iter [OF assms] split: option.splits sum.splits)
  have qs: "map_sum id set (estrai_domande_aperte e1 testo)
              = map_sum id set (estrai_domande_aperte e2 testo)"
    using qm by (cases "estrai_domande_aperte e1 testo"; cases "estrai_domande_aperte e2 testo")
      (auto dest: mset_eq_setD)
  from m s qm qs show ?thesis by simp
qed

lemma valid_env_rev: "valid_set_iter (set_iter env_rev)"
  by (simp add: env_rev_def valid_set_iter_def)

theorem extractors_total_witness:
  "valid_set_iter (set_iter env_quiet)
   \<and> re_findall pat_capitalized ''12 + 34'' = []
   \<and> re_findall pat_keyword_phrase ''12 + 34'' = []
   \<and> re_findall pat_token ''12 + 34'' = []
   \<and> estrai_simboli_concetti env_quiet ''12 + 34'' = []
   \<and> re_search pat_question_block ''12 + 34'' = None
   \<and> re_findall pat_question_sentence ''12 + 34'' = []
   \<and> estrai_domande_aperte env_quiet ''12 + 34'' = Inr []"
proof -
  have a: "re_findall pat_capitalized ''12 + 34'' = []" by code_simp
  have b: "re_findall pat_keyword_phrase ''12 + 34'' = []" by code_simp
  have c: "re_findall pat_token ''12 + 34'' = []" by code_simp
  have d: "re_search pat_question_block ''12 + 34'' = None" by code_simp
  have f: "re_findall pat_question_sentence ''12 + 34'' = []" by code_simp
  from extractors_total [OF valid_env_quiet, of "''12 + 34''"] a b c d f valid_env_quiet
  show ?thesis by blast
qed

theorem extraction_same_up_to_order_witness:
  "valid_set_iter (set_iter env_quiet) \<and> valid_set_iter (set_iter env_rev)
   \<and> estrai_domande_aperte env_quiet ''Why is it hot? Is it stable?''
       = Inr [''Why is it hot?'', ''Is it stable?'']
   \<and> estrai_domande_aperte env_rev ''Why is it hot? Is it stable?''
       = Inr [''Is it stable?'', ''Why is it hot?'']
   \<and> map_sum id set (estrai_domande_aperte env_quiet ''Why is it hot? Is it stable?'')
       = map_sum id set (estrai_domande_aperte env_rev ''Why is it hot? Is it stable?'')
   \<and> set (estrai_simboli_concetti env_quiet ''Why is it hot? Is it stable?'')
       = set (estrai_simboli_concetti env_rev ''Why is it hot? Is it stable?'')"
proof -
  have a: "estrai_domande_aperte env_quiet ''Why is it hot? Is it stable?''
             = Inr [''Why is it hot?'', ''Is it stable?'']" by code_simp
  have b: "estrai_domande_aperte env_rev ''Why is it hot? Is it stable?''
             = Inr [''Is it stable?'', ''Why is it hot?'']" by code_simp
  from extraction_same_up_to_order [OF valid_env_quiet valid_env_rev,
      of "''Why is it hot? Is it stable?''"] a b valid_env_quiet valid_env_rev
  show ?thesis by blast
qed

section \<open>One cycle, case by case\<close>

lemma ciclo_symbolic_file:
  assumes "ciclo_symbolic e n s = (res, s')"
  shows "roadmap_file s' = roadmap_file s"
proof -
  let ?s0 = "s\<lparr>log := log s @ [EvCycle n]\<rparr>"
  let ?p = "generate_prompt (focus_symbols (roadmap_var s)) (open_questions (roadmap_var s))"
  obtain r1 s1 where a1: "ask_ollama e ?p ?s0 = (r1, s1)" by (cases "ask_ollama e ?p ?s0")
  note e1 = ask_ollama_effect [OF a1]
  show ?thesis
  proof (cases r1)
    case (Inl x)
    with assms a1 e1 show ?thesis by (simp add: ciclo_symbolic_def)
  next
    case (Inr risposta)
    let ?links = "web_search (focus_symbols (roadmap_var s))
                    (case open_questions (roadmap_var s) of q # _ \<Rightarrow> q | [] \<Rightarrow> [])"
    obtain r2 s2 where a2: "scrape_all e ?links [] s1 = (r2, s2)"
      by (cases "scrape_all e ?links [] s1")
    from scrape_all_effect [OF a2] obtain fonti where
      e2: "roadmap_file s2 = roadmap_file s1" "r2 = Inr fonti" by blast
    obtain r3 s3 where a3: "ask_ollama e (peer_prompt risposta fonti) s2 = (r3, s3)"
      by (cases "ask_ollama e (peer_prompt risposta fonti) s2")
    note e3 = ask_ollama_effect [OF a3]
    from assms a1 Inr a2 e2 a3 e1 e3 show ?thesis
      by (auto simp: ciclo_symbolic_def Let_def split: sum.splits)
  qed
qed

lemma ciclo_symbolic_cases:
  assumes "ciclo_symbolic e n s = (res, s')"
  obtains
    (generation_failed) p x where
      "res = Inl x" "roadmap_var s' = roadmap_var s"
      "log s' = log s @ [EvCycle n, EvPost p (Inl x)]"
  | (review_failed) p t evs p2 x where
      "res = Inl x" "roadmap_var s' = roadmap_var s"
      "log s' = log s @ EvCycle n # EvPost p (Inr t) # evs @ [EvPost p2 (Inl x)]"
      "list_all scrape_event evs"
  | (merged) p t evs p2 review qs where
      "res = Inr (roadmap_var s')"
      "roadmap_var s' = merge_roadmap e (roadmap_var s) (estrai_simboli_concetti e t)
                           (estrai_simboli_concetti e review) qs"
      "estrai_domande_aperte e review = Inr qs"
      "log s' = log s @ EvCycle n # EvPost p (Inr t) # evs @ [EvPost p2 (Inr review)]"
      "list_all scrape_event evs"
proof -
  let ?s0 = "s\<lparr>log := log s @ [EvCycle n]\<rparr>"
  let ?p = "generate_prompt (focus_symbols (roadmap_var s)) (open_questions (roadmap_var s))"
  obtain r1 s1 where a1: "ask_ollama e ?p ?s0 = (r1, s1)" by (cases "ask_ollama e ?p ?s0")
  note e1 = ask_ollama_effect [OF a1]
  show thesis
  proof (cases r1)
    case (Inl x)
    with assms a1 have "res = Inl x" "s' = s1" by (simp_all add: ciclo_symbolic_def)
    with e1 Inl show thesis by (intro generation_failed [where x = x and p = ?p]) simp_all
  next
    case (Inr risposta)
    let ?links = "web_search (focus_symbols (roadmap_var s))
                    (case open_questions (roadmap_var s) of q # _ \<Rightarrow> q | [] \<Rightarrow> [])"
    obtain r2 s2 where a2: "scrape_all e ?links [] s1 = (r2, s2)"
      by (cases "scrape_all e ?links [] s1")
    from scrape_all_effect [OF a2] obtain evs fonti where
      e2: "roadmap_var s2 = roadmap_var s1" "log s2 = log s1 @ evs" "list_all scrape_event evs"
          "r2 = Inr fonti" by blast
    let ?pp = "peer_prompt risposta fonti"
    obtain r3 s3 where a3: "ask_ollama e ?pp s2 = (r3, s3)" by (cases "ask_ollama e ?pp s2")
    note e3 = ask_ollama_effect [OF a3]
    have lg: "log s3 = log s @ EvCycle n # EvPost ?p (Inr risposta) # evs @ [EvPost ?pp r3]"
      using e1(3) e2(2) e3(3) Inr by simp
    have rv: "roadmap_var s3 = roadmap_var s"
      using e1(1) e2(1) e3(1) by simp
    show thesis
    proof (cases r3)
      case (Inl x)
      with assms a1 Inr a2 e2(4) a3 have "res = Inl x" "s' = s3"
        by (simp_all add: ciclo_symbolic_def)
      with lg rv Inl e2(3) show thesis by (intro review_failed [where x = x and p = ?p and t = risposta and evs = evs and ?p2.0 = ?pp]) simp_all
    next
      case review: (Inr review)
      obtain qs where q: "estrai_domande_aperte e review = Inr qs"
        using estrai_domande_aperte_Inr by blast
      let ?r = "merge_roadmap e (roadmap_var s) (estrai_simboli_concetti e risposta)
                  (estrai_simboli_concetti e review) qs"
      from assms a1 Inr a2 e2(4) a3 review q rv
      have "res = Inr ?r" "s' = s3\<lparr>roadmap_var := ?r\<rparr>"
        by (simp_all add: ciclo_symbolic_def Let_def)
      with lg review q e2(3) show thesis
        by (intro merged [where p = ?p and t = risposta and evs = evs and ?p2.0 = ?pp and review = review and qs = qs]) simp_all
    qed
  qed
qed

lemma new_events_append: "log s' = log s @ evs \<Longrightarrow> new_events s s' = evs"
  by (simp add: new_events_def)

section \<open>Questions are replaced; a failed request changes nothing\<close>

text \<open>
  C2. When a cycle completes, the questions of the roadmap are exactly the questions
  extracted from the review, the text that came back from the second and last POST of the
  cycle: whatever questions the roadmap held before are gone. In particular, if the
  extraction is empty the roadmap has no open questions.
\<close>

theorem questions_replaced:
  assumes "ciclo_symbolic e n s = (Inr r, s')"
  shows "\<exists>p t evs p2 review.
           new_events s s' = EvCycle n # EvPost p (Inr t) # evs @ [EvPost p2 (Inr review)]
           \<and> list_all scrape_event evs
           \<and> estrai_domande_aperte e review = Inr (open_questions r)
           \<and> (estrai_domande_aperte e review = Inr [] \<longrightarrow> open_questions r = [])
           \<and> roadmap_var s' = r"
  using assms
proof (cases rule: ciclo_symbolic_cases)
  case (merged p t evs p2 review qs)
  then have "open_questions r = qs" "roadmap_var s' = r"
    by (auto simp: merge_roadmap_def)
  with merged new_events_append [OF merged(4)] show ?thesis by auto
qed simp_all

lemma ask_ollama_fails_iff:
  "fst (ask_ollama e p s) = Inl x \<longleftrightarrow>
     (post e (posts s) p = PostRaises x
      \<or> (post e (posts s) p = PostBody None \<and> x = JSONDecodeError ''Expecting value'')
      \<or> (\<exists>obj. post e (posts s) p = PostBody (Some obj) \<and> map_of obj ''response'' = None
            \<and> x = KeyError ''response''))"
  by (auto simp: ask_ollama_def Let_def split: post_reply.splits option.splits)

lemma failed_post_leaves_roadmap:
  assumes "ciclo_symbolic e n s = (res, s')"
    and "EvPost p (Inl x) \<in> set (new_events s s')"
  shows "res = Inl x \<and> roadmap_var s' = roadmap_var s \<and> roadmap_file s' = roadmap_file s
         \<and> (\<forall>r. EvSave r \<notin> set (new_events s s'))
         \<and> main_loop e (n # rest) s = (Inl x, s')"
proof -
  have no_post: "EvPost p (Inl x) \<notin> set evs" "EvSave r \<notin> set evs"
    if "list_all scrape_event evs" for evs r
    using that by (auto simp: list_all_iff)
  note unchanged = ciclo_symbolic_file [OF assms(1)]
  from assms(1) show ?thesis
  proof (cases rule: ciclo_symbolic_cases)
    case (generation_failed p' x')
    with assms unchanged new_events_append [OF generation_failed(3)] show ?thesis by auto
  next
    case (review_failed p' t evs p2 x')
    with assms unchanged new_events_append [OF review_failed(3)] no_post [OF review_failed(4)]
    show ?thesis by auto
  next
    case (merged p' t evs p2 review qs)
    with assms(2) new_events_append [OF merged(4)] no_post [OF merged(5)]
    show ?thesis by auto
  qed
qed

lemma ask_ollama_ok:
  assumes "post e (posts s) p = PostBody (Some obj)" and "map_of obj ''response'' = Some t"
  shows "fst (ask_ollama e p s) = Inr t"
  using assms by (simp add: ask_ollama_def Let_def)

lemma scrape_url_result:
  "scrape_url e url s =
     (Inr (case scrape_body e url s of
             Inl x \<Rightarrow> ''[Errore scraping '' @ url @ '': '' @ str_of_error x @ '']''
           | Inr t \<Rightarrow> t),
      s\<lparr>gets := Suc (gets s), log := log s @ [EvGet url]\<rparr>)"
  by (simp add: scrape_url_def Let_def split: sum.splits)

lemma scrape_all_fst_cong:
  "gets s = gets t \<Longrightarrow> fst (scrape_all e links fonti s) = fst (scrape_all e links fonti t)"
proof (induction links arbitrary: fonti s t)
  case Nil
  then show ?case by simp
next
  case (Cons url links)
  have b: "scrape_body e url t = scrape_body e url s"
    using Cons.prems by (simp add: scrape_body_def)
  have "gets (sleep 1 (s\<lparr>gets := Suc (gets s), log := log s @ [EvGet url]\<rparr>))
          = gets (sleep 1 (t\<lparr>gets := Suc (gets t), log := log t @ [EvGet url]\<rparr>))"
    using Cons.prems by (simp add: sleep_def)
  from Cons.IH [OF this] show ?case
    by (simp add: scrape_url_result b)
qed

text \<open>
  C5. Let the reply to a generation request of a cycle be bad: the service raises, or the
  body is not JSON, or the body has no \<open>response\<close> field. Whether it is the reply to the
  first request (the generation prompt) or, after a good first reply and the fetches, the
  reply to the second request (the review prompt), the cycle ends with the exception, the
  roadmap in memory and the roadmap file are what they were when the cycle started,
  nothing was saved during the cycle, and the outer loop ends with the exception as well.
\<close>

theorem failed_generation_leaves_roadmap:
  assumes "ciclo_symbolic e n s = (res, s')"
    and "bad = PostRaises x
         \<or> (bad = PostBody None \<and> x = JSONDecodeError ''Expecting value'')
         \<or> (\<exists>obj. bad = PostBody (Some obj) \<and> map_of obj ''response'' = None
               \<and> x = KeyError ''response'')"
    and "post e (posts s)
           (generate_prompt (focus_symbols (roadmap_var s)) (open_questions (roadmap_var s))) = bad
         \<or> (\<exists>obj risposta fonti.
               post e (posts s)
                 (generate_prompt (focus_symbols (roadmap_var s)) (open_questions (roadmap_var s)))
                 = PostBody (Some obj)
               \<and> map_of obj ''response'' = Some risposta
               \<and> fst (scrape_all e
                        (web_search (focus_symbols (roadmap_var s))
                           (case open_questions (roadmap_var s) of q # _ \<Rightarrow> q | [] \<Rightarrow> []))
                        [] s) = Inr fonti
               \<and> post e (Suc (posts s)) (peer_prompt risposta fonti) = bad)"
  shows "res = Inl x \<and> roadmap_var s' = roadmap_var s \<and> roadmap_file s' = roadmap_file s
         \<and> (\<forall>r. EvSave r \<notin> set (new_events s s'))
         \<and> (\<exists>p. EvPost p (Inl x) \<in> set (new_events s s'))
         \<and> main_loop e (n # rest) s = (Inl x, s')"
proof -
  let ?s0 = "s\<lparr>log := log s @ [EvCycle n]\<rparr>"
  let ?p = "generate_prompt (focus_symbols (roadmap_var s)) (open_questions (roadmap_var s))"
  let ?links = "web_search (focus_symbols (roadmap_var s))
                  (case open_questions (roadmap_var s) of q # _ \<Rightarrow> q | [] \<Rightarrow> [])"
  obtain r1 s1 where a1: "ask_ollama e ?p ?s0 = (r1, s1)" by (cases "ask_ollama e ?p ?s0")
  note e1 = ask_ollama_effect [OF a1]
  have "\<exists>p. EvPost p (Inl x) \<in> set (new_events s s')"
    using assms(3)
  proof
    assume "post e (posts s) ?p = bad"
    with assms(2) have "fst (ask_ollama e ?p ?s0) = Inl x"
      by (simp add: ask_ollama_fails_iff)
    with a1 have r1: "r1 = Inl x" by simp
    with assms(1) a1 have "s' = s1" by (simp add: ciclo_symbolic_def)
    with e1(3) r1 have "log s' = log s @ [EvCycle n, EvPost ?p (Inl x)]" by simp
    from new_events_append [OF this] show ?thesis by simp
  next
    assume "\<exists>obj risposta fonti. post e (posts s) ?p = PostBody (Some obj)
               \<and> map_of obj ''response'' = Some risposta
               \<and> fst (scrape_all e ?links [] s) = Inr fonti
               \<and> post e (Suc (posts s)) (peer_prompt risposta fonti) = bad"
    then obtain obj risposta fonti where
      h: "post e (posts s) ?p = PostBody (Some obj)" "map_of obj ''response'' = Some risposta"
         "fst (scrape_all e ?links [] s) = Inr fonti"
         "post e (Suc (posts s)) (peer_prompt risposta fonti) = bad"
      by blast
    have "fst (ask_ollama e ?p ?s0) = Inr risposta"
      using h(1,2) by (simp add: ask_ollama_ok)
    with a1 have r1: "r1 = Inr risposta" by simp
    obtain r2 s2 where a2: "scrape_all e ?links [] s1 = (r2, s2)"
      by (cases "scrape_all e ?links [] s1")
    from scrape_all_effect [OF a2] obtain evs where
      e2: "posts s2 = posts s1" "log s2 = log s1 @ evs" by blast
    have "fst (scrape_all e ?links [] s1) = fst (scrape_all e ?links [] s)"
      using e1(5) by (intro scrape_all_fst_cong) simp
    with a2 h(3) have r2: "r2 = Inr fonti" by simp
    let ?pp = "peer_prompt risposta fonti"
    obtain r3 s3 where a3: "ask_ollama e ?pp s2 = (r3, s3)" by (cases "ask_ollama e ?pp s2")
    note e3 = ask_ollama_effect [OF a3]
    have "posts s2 = Suc (posts s)" using e1(4) e2(1) by simp
    with h(4) assms(2) have "fst (ask_ollama e ?pp s2) = Inl x"
      by (simp add: ask_ollama_fails_iff)
    with a3 have r3: "r3 = Inl x" by simp
    with assms(1) a1 r1 a2 r2 a3 have "s' = s3" by (simp add: ciclo_symbolic_def)
    with e1(3) e2(2) e3(3) r1 r3
    have "log s' = log s @ (EvCycle n # EvPost ?p (Inr risposta) # evs @ [EvPost ?pp (Inl x)])"
      by simp
    from new_events_append [OF this] show ?thesis by auto
  qed
  then obtain p where "EvPost p (Inl x) \<in> set (new_events s s')" ..
  from failed_post_leaves_roadmap [OF assms(1) this, of rest] this show ?thesis by blast
qed

section \<open>The log of the outer loop\<close>

lemma main_loop_step:
  assumes "main_loop e (c # cs) s = (res, s')"
  obtains
    (raised) x where "ciclo_symbolic e c s = (Inl x, s')" "res = Inl x"
  | (stopped) s1 where "ciclo_symbolic e c s = (Inr (roadmap_var s1), s1)"
      "open_questions (roadmap_var s1) = []" "s' = save_roadmap s1" "res = Inr ()"
  | (went_on) s1 where "ciclo_symbolic e c s = (Inr (roadmap_var s1), s1)"
      "open_questions (roadmap_var s1) \<noteq> []"
      "main_loop e cs (sleep SLEEP_BETWEEN_CYCLES (save_roadmap s1)) = (res, s')"
proof -
  obtain r1 s1 where c: "ciclo_symbolic e c s = (r1, s1)" by (cases "ciclo_symbolic e c s")
  show thesis
  proof (cases r1)
    case (Inl x)
    with assms c show thesis by (intro raised [where x = x]) simp_all
  next
    case (Inr roadmap)
    from c have "r1 = Inr (roadmap_var s1)"
      by (cases rule: ciclo_symbolic_cases) (simp_all add: Inr)
    with Inr have same: "s1\<lparr>roadmap_var := roadmap\<rparr> = s1" "roadmap = roadmap_var s1" by simp_all
    have q: "open_questions (roadmap_var (save_roadmap s1)) = open_questions (roadmap_var s1)"
      by (simp add: save_roadmap_def)
    show thesis
    proof (cases "open_questions (roadmap_var s1) = []")
      case True
      with assms c Inr same q show thesis
        by (intro stopped [where ?s1.0 = s1]) (simp_all add: Let_def)
    next
      case False
      with assms c Inr same q show thesis
        by (intro went_on [where ?s1.0 = s1]) (simp_all add: Let_def)
    qed
  qed
qed

lemma scrape_event_cycle_event: "scrape_event ev \<Longrightarrow> cycle_event ev"
  by (cases ev) simp_all

lemma scrape_events_cycle_events: "list_all scrape_event evs \<Longrightarrow> list_all cycle_event evs"
  by (induction evs) (auto intro: scrape_event_cycle_event)

lemma ciclo_symbolic_trace:
  assumes "ciclo_symbolic e c s = (res, s')"
  shows "\<exists>body. log s' = log s @ EvCycle c # body \<and> list_all cycle_event body"
  using assms
proof (cases rule: ciclo_symbolic_cases)
  case (generation_failed p x)
  then show ?thesis by simp
next
  case (review_failed p t evs p2 x)
  with scrape_events_cycle_events [OF review_failed(4)] show ?thesis by simp
next
  case (merged p t evs p2 review qs)
  with scrape_events_cycle_events [OF merged(5)] show ?thesis by simp
qed

lemma ciclo_symbolic_trace_done:
  assumes "ciclo_symbolic e c s = (Inr r, s')"
  shows "\<exists>body p review. log s' = log s @ EvCycle c # body @ [EvPost p (Inr review)]
           \<and> list_all cycle_event body
           \<and> estrai_domande_aperte e review = Inr (open_questions r)"
  using assms
proof (cases rule: ciclo_symbolic_cases)
  case (merged p t evs p2 review qs)
  have "list_all cycle_event (EvPost p (Inr t) # evs)"
    using scrape_events_cycle_events [OF merged(5)] by simp
  moreover have "open_questions r = qs"
    using merged(1,2) by (simp add: merge_roadmap_def)
  moreover have "log s' = log s @ EvCycle c # (EvPost p (Inr t) # evs) @ [EvPost p2 (Inr review)]"
    using merged(4) by simp
  ultimately show ?thesis using merged(3) by blast
qed simp_all

lemma main_loop_trace:
  assumes "main_loop e cs s = (res, s')"
  shows "\<exists>evs. log s' = log s @ evs \<and> loop_trace e cs evs"
  using assms
proof (induction cs arbitrary: s)
  case Nil
  then show ?case by (auto intro: loop_trace.idle)
next
  case (Cons c cs)
  from Cons.prems show ?case
  proof (cases rule: main_loop_step)
    case (raised x)
    from ciclo_symbolic_trace [OF raised(1)] obtain body where
      "log s' = log s @ EvCycle c # body" "list_all cycle_event body" by blast
    then show ?thesis by (auto intro: loop_trace.aborted)
  next
    case (stopped s1)
    from ciclo_symbolic_trace_done [OF stopped(1)] obtain body' p review where
      b: "log s1 = log s @ EvCycle c # body' @ [EvPost p (Inr review)]" "list_all cycle_event body'"
         "estrai_domande_aperte e review = Inr (open_questions (roadmap_var s1))" by auto
    have "log s' = log s @ (EvCycle c # body' @ [EvPost p (Inr review), EvSave (roadmap_var s1)])"
      using b(1) stopped(3) by (simp add: save_roadmap_def)
    moreover have "loop_trace e (c # cs)
        (EvCycle c # body' @ [EvPost p (Inr review), EvSave (roadmap_var s1)])"
      using b(2,3) stopped(2) by (rule loop_trace.converged)
    ultimately show ?thesis by blast
  next
    case (went_on s1)
    from ciclo_symbolic_trace_done [OF went_on(1)] obtain body' p review where
      b: "log s1 = log s @ EvCycle c # body' @ [EvPost p (Inr review)]" "list_all cycle_event body'"
         "estrai_domande_aperte e review = Inr (open_questions (roadmap_var s1))" by auto
    from Cons.IH [OF went_on(3)] obtain evs where
      ih: "log s' = log (sleep SLEEP_BETWEEN_CYCLES (save_roadmap s1)) @ evs" "loop_trace e cs evs"
      by blast
    have "log s' = log s @ (EvCycle c # body'
            @ [EvPost p (Inr review), EvSave (roadmap_var s1), EvSleep SLEEP_BETWEEN_CYCLES] @ evs)"
      using b(1) ih(1) by (simp add: save_roadmap_def sleep_def)
    moreover have "loop_trace e (c # cs) (EvCycle c # body'
            @ [EvPost p (Inr review), EvSave (roadmap_var s1), EvSleep SLEEP_BETWEEN_CYCLES] @ evs)"
      using b(2,3) went_on(2) ih(2) by (rule loop_trace.continued)
    ultimately show ?thesis by blast
  qed
qed

lemma cycle_events_no_start: "list_all cycle_event body \<Longrightarrow> filter is_cycle_start body = []"
proof (induction body)
  case Nil
  then show ?case by simp
next
  case (Cons ev body)
  then show ?case by (cases ev) auto
qed

lemma loop_trace_starts:
  assumes "loop_trace e cs evs"
  shows "\<exists>m\<le>length cs. filter is_cycle_start evs = map EvCycle (take m cs)"
  using assms
proof (induction rule: loop_trace.induct)
  case idle
  then show ?case by simp
next
  case (aborted body c cs)
  then have "filter is_cycle_start (EvCycle c # body) = map EvCycle (take 1 (c # cs))"
    by (simp add: cycle_events_no_start)
  then show ?case by (intro exI [of _ 1]) simp
next
  case (converged body review r c cs p)
  then have "filter is_cycle_start (EvCycle c # body @ [EvPost p (Inr review), EvSave r])
               = map EvCycle (take 1 (c # cs))"
    by (simp add: cycle_events_no_start)
  then show ?case by (intro exI [of _ 1]) simp
next
  case (continued body review r cs evs c p)
  then obtain m where m: "m \<le> length cs" "filter is_cycle_start evs = map EvCycle (take m cs)"
    by blast
  with continued(1) have "filter is_cycle_start
      (EvCycle c # body @ [EvPost p (Inr review), EvSave r, EvSleep SLEEP_BETWEEN_CYCLES] @ evs)
        = map EvCycle (take (Suc m) (c # cs))"
    by (simp add: cycle_events_no_start)
  with m(1) show ?case by (intro exI [of _ "Suc m"]) simp
qed

lemma cycle_event_not_start: "list_all cycle_event body \<Longrightarrow> EvCycle k \<notin> set body"
  by (auto simp: list_all_iff)

lemma cycle_event_not_save: "list_all cycle_event body \<Longrightarrow> EvSave r \<notin> set body"
  by (auto simp: list_all_iff)

lemma split_after_prefix:
  assumes "xs @ ys = pre @ a # rest" and "a \<notin> set xs"
  shows "\<exists>pre2. pre = xs @ pre2 \<and> ys = pre2 @ a # rest"
  using assms
proof (induction xs arbitrary: pre)
  case Nil
  then show ?case by simp
next
  case (Cons x xs)
  then show ?case by (cases pre) auto
qed

lemma loop_trace_save:
  assumes "loop_trace e cs evs" and "evs = pre @ EvSave r # rest"
  shows "(\<exists>pre' p review. pre = pre' @ [EvPost p (Inr review)]
            \<and> estrai_domande_aperte e review = Inr (open_questions r))
         \<and> (open_questions r = [] \<longrightarrow> rest = [])
         \<and> (open_questions r \<noteq> [] \<longrightarrow> (\<exists>rest'. rest = EvSleep SLEEP_BETWEEN_CYCLES # rest'))"
  using assms
proof (induction arbitrary: pre rule: loop_trace.induct)
  case idle
  then show ?case by simp
next
  case (aborted body c cs)
  have "EvSave r \<in> set (pre @ EvSave r # rest)" by simp
  with aborted(2) have "EvSave r \<in> set (EvCycle c # body)" by simp
  with cycle_event_not_save [OF aborted(1), of r] show ?case by simp
next
  case (converged body review r' c cs p)
  let ?xs = "EvCycle c # body @ [EvPost p (Inr review)]"
  have "?xs @ [EvSave r'] = pre @ EvSave r # rest" using converged(4) by simp
  moreover have "EvSave r \<notin> set ?xs" using cycle_event_not_save [OF converged(1)] by simp
  ultimately obtain pre2 where "pre = ?xs @ pre2" "[EvSave r'] = pre2 @ EvSave r # rest"
    using split_after_prefix [of ?xs _ pre "EvSave r" rest] by blast
  then have eqs: "pre = (EvCycle c # body) @ [EvPost p (Inr review)]" "r' = r" "rest = []"
    by (simp_all add: Cons_eq_append_conv)
  from eqs(1) converged(2) have "\<exists>pre' p review. pre = pre' @ [EvPost p (Inr review)]
      \<and> estrai_domande_aperte e review = Inr (open_questions r)"
    unfolding eqs(2) by blast
  with eqs(3) converged(3) eqs(2) show ?case by simp
next
  case (continued body review r' cs evs c p)
  let ?xs = "EvCycle c # body @ [EvPost p (Inr review)]"
  have "?xs @ (EvSave r' # EvSleep SLEEP_BETWEEN_CYCLES # evs) = pre @ EvSave r # rest"
    using continued(6) by simp
  moreover have "EvSave r \<notin> set ?xs" using cycle_event_not_save [OF continued(1)] by simp
  ultimately obtain pre2 where
    p2: "pre = ?xs @ pre2" "EvSave r' # EvSleep SLEEP_BETWEEN_CYCLES # evs = pre2 @ EvSave r # rest"
    using split_after_prefix [of ?xs _ pre "EvSave r" rest] by blast
  show ?case
  proof (cases pre2)
    case Nil
    with p2 have eqs: "pre = (EvCycle c # body) @ [EvPost p (Inr review)]" "r' = r"
        "rest = EvSleep SLEEP_BETWEEN_CYCLES # evs" by simp_all
    from eqs(1) continued(2) have "\<exists>pre' p review. pre = pre' @ [EvPost p (Inr review)]
        \<and> estrai_domande_aperte e review = Inr (open_questions r)"
      unfolding eqs(2) by blast
    with eqs(3) continued(3) eqs(2) show ?thesis by simp
  next
    case (Cons a pre3)
    with p2(2) have t: "EvSleep SLEEP_BETWEEN_CYCLES # evs = pre3 @ EvSave r # rest" by simp
    then obtain pre4 where
      p4: "pre3 = EvSleep SLEEP_BETWEEN_CYCLES # pre4" "evs = pre4 @ EvSave r # rest"
      by (cases pre3) simp_all
    from continued(5) [OF p4(2)] obtain pre' p' review' where
      ih: "pre4 = pre' @ [EvPost p' (Inr review')]"
          "estrai_domande_aperte e review' = Inr (open_questions r)"
          "open_questions r = [] \<longrightarrow> rest = []"
          "open_questions r \<noteq> [] \<longrightarrow> (\<exists>rest'. rest = EvSleep SLEEP_BETWEEN_CYCLES # rest')"
      by blast
    have "pre = (?xs @ a # EvSleep SLEEP_BETWEEN_CYCLES # pre') @ [EvPost p' (Inr review')]"
      using p2(1) Cons p4(1) ih(1) by simp
    with ih(2) have "\<exists>pre' p review. pre = pre' @ [EvPost p (Inr review)]
        \<and> estrai_domande_aperte e review = Inr (open_questions r)"
      by (intro exI [of _ "?xs @ a # EvSleep SLEEP_BETWEEN_CYCLES # pre'"] exI [of _ p']
          exI [of _ review']) simp
    with ih(3,4) show ?thesis by simp
  qed
qed

lemma tl_snoc_last: "tl (pre @ [ev]) = zs \<Longrightarrow> zs \<noteq> [] \<Longrightarrow> last zs = ev"
  by (cases pre) auto

lemma tl_middle: "tl (pre @ ev # a # rest) = tl (pre @ [ev]) @ a # rest"
  by (cases pre) simp_all

lemma loop_trace_pause:
  assumes "loop_trace e cs evs" and "evs = pre @ ev # EvCycle k # rest"
  shows "ev = EvSleep SLEEP_BETWEEN_CYCLES"
  using assms
proof (induction arbitrary: pre ev rule: loop_trace.induct)
  case idle
  then show ?case by simp
next
  case (aborted body c cs)
  from aborted(2) have "body = tl (pre @ [ev]) @ EvCycle k # rest"
    using tl_middle [of pre ev "EvCycle k" rest] by (metis list.sel(3))
  then have "EvCycle k \<in> set body" by simp
  with cycle_event_not_start [OF aborted(1)] show ?case by simp
next
  case (converged body review r c cs p)
  from converged(4) have "body @ [EvPost p (Inr review), EvSave r] = tl (pre @ [ev]) @ EvCycle k # rest"
    using tl_middle [of pre ev "EvCycle k" rest] by (metis list.sel(3))
  then have "EvCycle k \<in> set (body @ [EvPost p (Inr review), EvSave r])" by simp
  with cycle_event_not_start [OF converged(1)] show ?case by simp
next
  case (continued body review r cs evs c p)
  let ?ys = "body @ [EvPost p (Inr review), EvSave r, EvSleep SLEEP_BETWEEN_CYCLES]"
  from continued(6) have "?ys @ evs = tl (pre @ [ev]) @ EvCycle k # rest"
    using tl_middle [of pre ev "EvCycle k" rest] by (metis append.assoc list.sel(3))
  moreover have "EvCycle k \<notin> set ?ys"
    using cycle_event_not_start [OF continued(1)] by simp
  ultimately obtain pre2 where
    p2: "tl (pre @ [ev]) = ?ys @ pre2" "evs = pre2 @ EvCycle k # rest"
    using split_after_prefix [of ?ys evs "tl (pre @ [ev])" "EvCycle k" rest] by blast
  show ?case
  proof (cases pre2 rule: rev_cases)
    case Nil
    with p2(1) have "tl (pre @ [ev]) = ?ys" by simp
    from tl_snoc_last [OF this] show ?thesis by simp
  next
    case (snoc pre3 ev')
    with p2(1) have "tl (pre @ [ev]) = (?ys @ pre3) @ [ev']" by simp
    from tl_snoc_last [OF this] have "ev = ev'" by simp
    moreover from p2(2) snoc have "evs = pre3 @ ev' # EvCycle k # rest" by simp
    from continued(5) [OF this] have "ev' = EvSleep SLEEP_BETWEEN_CYCLES" .
    ultimately show ?thesis by simp
  qed
qed

section \<open>The exact log of the outer loop\<close>

lemma main_loop_log:
  assumes "main_loop e cs s = (res, s')"
  shows "\<exists>evs. log s' = log s @ evs \<and> loop_log e cs evs"
  using assms
proof (induction cs arbitrary: s)
  case Nil
  then show ?case by (auto intro: loop_log.done_all)
next
  case (Cons c cs)
  from Cons.prems show ?case
  proof (cases rule: main_loop_step)
    case (raised x)
    from raised(1) show ?thesis
    proof (cases rule: ciclo_symbolic_cases)
      case (generation_failed p y)
      have "loop_log e (c # cs) [EvCycle c, EvPost p (Inl y)]"
        by (rule loop_log.generation_raised)
      with generation_failed(3) show ?thesis by blast
    next
      case (review_failed p t evs p2 y)
      have "loop_log e (c # cs) (EvCycle c # EvPost p (Inr t) # evs @ [EvPost p2 (Inl y)])"
        using review_failed(4) by (rule loop_log.review_raised)
      with review_failed(3) show ?thesis by blast
    next
      case (merged p t evs p2 review qs)
      then show ?thesis by simp
    qed
  next
    case (stopped s1)
    from stopped(1) show ?thesis
    proof (cases rule: ciclo_symbolic_cases)
      case (merged p t evs p2 review qs)
      have q: "estrai_domande_aperte e review = Inr (open_questions (roadmap_var s1))"
        using merged(2,3) by (simp add: merge_roadmap_def)
      let ?evs = "EvCycle c # EvPost p (Inr t) # evs @ [EvPost p2 (Inr review), EvSave (roadmap_var s1)]"
      have "log s' = log s @ ?evs"
        using merged(4) stopped(3) by (simp add: save_roadmap_def)
      moreover have "loop_log e (c # cs) ?evs"
        using merged(5) q stopped(2) by (rule loop_log.no_questions)
      ultimately show ?thesis by blast
    qed simp_all
  next
    case (went_on s1)
    from went_on(1) show ?thesis
    proof (cases rule: ciclo_symbolic_cases)
      case (merged p t evs p2 review qs)
      have q: "estrai_domande_aperte e review = Inr (open_questions (roadmap_var s1))"
        using merged(2,3) by (simp add: merge_roadmap_def)
      from Cons.IH [OF went_on(3)] obtain rest where
        ih: "log s' = log (sleep SLEEP_BETWEEN_CYCLES (save_roadmap s1)) @ rest" "loop_log e cs rest"
        by blast
      let ?evs = "EvCycle c # EvPost p (Inr t) # evs
          @ [EvPost p2 (Inr review), EvSave (roadmap_var s1), EvSleep SLEEP_BETWEEN_CYCLES] @ rest"
      have "log s' = log s @ ?evs"
        using merged(4) ih(1) by (simp add: save_roadmap_def sleep_def)
      moreover have "loop_log e (c # cs) ?evs"
        using merged(5) q went_on(2) ih(2) by (rule loop_log.next_cycle)
      ultimately show ?thesis by blast
    qed simp_all
  qed
qed

lemma loop_log_trace: "loop_log e cs evs \<Longrightarrow> loop_trace e cs evs"
proof (induction rule: loop_log.induct)
  case done_all
  show ?case by (rule loop_trace.idle)
next
  case (generation_raised c cs p x)
  have "list_all cycle_event [EvPost p (Inl x)]" by simp
  then show ?case by (rule loop_trace.aborted)
next
  case (review_raised evs c cs p t p2 x)
  have "list_all cycle_event (EvPost p (Inr t) # evs @ [EvPost p2 (Inl x)])"
    using scrape_events_cycle_events [OF review_raised] by simp
  then show ?case by (rule loop_trace.aborted)
next
  case (no_questions evs review r c cs p t p2)
  have "list_all cycle_event (EvPost p (Inr t) # evs)"
    using scrape_events_cycle_events [OF no_questions(1)] by simp
  from loop_trace.converged [OF this no_questions(2,3), of c cs p2] show ?case by simp
next
  case (next_cycle evs review r cs rest c p t p2)
  have "list_all cycle_event (EvPost p (Inr t) # evs)"
    using scrape_events_cycle_events [OF next_cycle(1)] by simp
  from loop_trace.continued [OF this next_cycle(2,3,5), of c p2] show ?case by simp
qed

lemma loop_log_Nil: "loop_log e [] evs \<Longrightarrow> evs = []"
  by (erule loop_log.cases) simp_all

lemma loop_log_Cons: "loop_log e (c # cs) evs \<Longrightarrow> \<exists>rest. evs = EvCycle c # rest"
  by (erule loop_log.cases) simp_all

lemma scrape_event_not_save: "list_all scrape_event evs \<Longrightarrow> EvSave r \<notin> set evs"
  by (auto simp: list_all_iff)

lemma scrape_event_not_post: "list_all scrape_event evs \<Longrightarrow> EvPost p y \<notin> set evs"
  by (auto simp: list_all_iff)

lemma scrape_events_no_start: "list_all scrape_event evs \<Longrightarrow> filter is_cycle_start evs = []"
  using cycle_events_no_start scrape_events_cycle_events by blast

lemma loop_log_after_save:
  assumes "loop_log e cs evs"
    and "evs = pre @ EvSave r # EvSleep SLEEP_BETWEEN_CYCLES # rest"
  shows "(length (filter is_cycle_start pre) < length cs
            \<longrightarrow> (\<exists>rest'. rest = EvCycle (cs ! length (filter is_cycle_start pre)) # rest'))
         \<and> (\<not> length (filter is_cycle_start pre) < length cs \<longrightarrow> rest = [])"
  using assms
proof (induction arbitrary: pre rule: loop_log.induct)
  case done_all
  then show ?case by simp
next
  case (generation_raised c cs p x)
  have "EvSave r \<in> set (pre @ EvSave r # EvSleep SLEEP_BETWEEN_CYCLES # rest)" by simp
  with generation_raised have "EvSave r \<in> set [EvCycle c, EvPost p (Inl x)]" by simp
  then show ?case by simp
next
  case (review_raised evs c cs p t p2 x)
  have "EvSave r \<in> set (pre @ EvSave r # EvSleep SLEEP_BETWEEN_CYCLES # rest)" by simp
  with review_raised(2)
  have "EvSave r \<in> set (EvCycle c # EvPost p (Inr t) # evs @ [EvPost p2 (Inl x)])" by simp
  with scrape_event_not_save [OF review_raised(1), of r] show ?case by simp
next
  case (no_questions evs review r' c cs p t p2)
  let ?h = "EvCycle c # EvPost p (Inr t) # evs @ [EvPost p2 (Inr review)]"
  have eq: "?h @ [EvSave r'] = pre @ EvSave r # (EvSleep SLEEP_BETWEEN_CYCLES # rest)"
    using no_questions(4) by simp
  have ni: "EvSave r \<notin> set ?h"
    using scrape_event_not_save [OF no_questions(1)] by simp
  from split_after_prefix [OF eq ni] obtain pre2 where
    "[EvSave r'] = pre2 @ EvSave r # (EvSleep SLEEP_BETWEEN_CYCLES # rest)"
    by blast
  then have "length [EvSave r'] = length (pre2 @ EvSave r # (EvSleep SLEEP_BETWEEN_CYCLES # rest))"
    by simp
  then show ?case by simp
next
  case (next_cycle evs review r' cs rest0 c p t p2)
  let ?h = "EvCycle c # EvPost p (Inr t) # evs @ [EvPost p2 (Inr review)]"
  have hs: "filter is_cycle_start ?h = [EvCycle c]"
    using scrape_events_no_start [OF next_cycle(1)] by simp
  have eq: "?h @ (EvSave r' # EvSleep SLEEP_BETWEEN_CYCLES # rest0)
          = pre @ EvSave r # (EvSleep SLEEP_BETWEEN_CYCLES # rest)"
    using next_cycle(6) by simp
  have ni: "EvSave r \<notin> set ?h"
    using scrape_event_not_save [OF next_cycle(1)] by simp
  from split_after_prefix [OF eq ni] obtain pre2 where
    p2: "pre = ?h @ pre2"
        "EvSave r' # EvSleep SLEEP_BETWEEN_CYCLES # rest0
           = pre2 @ EvSave r # (EvSleep SLEEP_BETWEEN_CYCLES # rest)"
    by blast
  show ?case
  proof (cases pre2)
    case Nil
    with p2 have eqs: "pre = ?h" "rest0 = rest" by simp_all
    have j: "length (filter is_cycle_start pre) = 1"
      unfolding eqs(1) hs by simp
    show ?thesis
    proof (cases cs)
      case Nil
      with next_cycle(4) eqs(2) have "rest = []" by (simp add: loop_log_Nil)
      with j Nil show ?thesis by simp
    next
      case (Cons c' cs')
      with next_cycle(4) eqs(2) obtain rest' where "rest = EvCycle c' # rest'"
        using loop_log_Cons by blast
      with j Cons show ?thesis by simp
    qed
  next
    case (Cons a pre3)
    with p2(2) have t: "EvSleep SLEEP_BETWEEN_CYCLES # rest0
        = pre3 @ EvSave r # (EvSleep SLEEP_BETWEEN_CYCLES # rest)" and a: "a = EvSave r'"
      by simp_all
    then obtain pre4 where
      p4: "pre3 = EvSleep SLEEP_BETWEEN_CYCLES # pre4"
          "rest0 = pre4 @ EvSave r # EvSleep SLEEP_BETWEEN_CYCLES # rest"
      by (cases pre3) simp_all
    note ih = next_cycle(5) [OF p4(2)]
    have "pre = ?h @ EvSave r' # EvSleep SLEEP_BETWEEN_CYCLES # pre4"
      using p2(1) Cons a p4(1) by simp
    then have "filter is_cycle_start pre
        = filter is_cycle_start ?h @ filter is_cycle_start pre4"
      by simp
    then have j: "length (filter is_cycle_start pre) = Suc (length (filter is_cycle_start pre4))"
      unfolding hs by simp
    from ih show ?thesis
      unfolding j by simp
  qed
qed

lemma after_first:
  assumes "x # ys = pre @ ev # a # rest" and "ev \<noteq> x"
  shows "\<exists>pre1. pre = x # pre1 \<and> ys = pre1 @ ev # a # rest"
  using assms by (cases pre) simp_all

lemma loop_log_review_saved:
  assumes "loop_log e cs evs"
    and "evs = pre @ ev # EvPost q (Inr rv) # rest"
    and "\<not> is_cycle_start ev"
  shows "\<exists>r rest'. rest = EvSave r # rest' \<and> estrai_domande_aperte e rv = Inr (open_questions r)"
  using assms
proof (induction arbitrary: pre rule: loop_log.induct)
  case done_all
  then show ?case by simp
next
  case (generation_raised c cs p x)
  from generation_raised(2) have "ev \<noteq> EvCycle c" by auto
  from after_first [OF generation_raised(1) this] obtain pre1 where
    "[EvPost p (Inl x)] = pre1 @ ev # EvPost q (Inr rv) # rest" by blast
  then have "length [EvPost p (Inl x)] = length (pre1 @ ev # EvPost q (Inr rv) # rest)"
    by simp
  then show ?case by simp
next
  case (review_raised evs c cs p t p2 x)
  from review_raised(3) have "ev \<noteq> EvCycle c" by auto
  from after_first [OF review_raised(2) this] obtain pre1 where
    "EvPost p (Inr t) # evs @ [EvPost p2 (Inl x)] = pre1 @ ev # EvPost q (Inr rv) # rest"
    by blast
  then have "tl (EvPost p (Inr t) # evs @ [EvPost p2 (Inl x)])
      = tl (pre1 @ ev # EvPost q (Inr rv) # rest)" by simp
  then have eq: "evs @ [EvPost p2 (Inl x)] = tl (pre1 @ [ev]) @ EvPost q (Inr rv) # rest"
    by (simp add: tl_middle)
  have ni: "EvPost q (Inr rv) \<notin> set evs"
    by (rule scrape_event_not_post [OF review_raised(1)])
  from split_after_prefix [OF eq ni] obtain pre2 where
    "[EvPost p2 (Inl x)] = pre2 @ EvPost q (Inr rv) # rest" by blast
  then show ?case by (cases pre2) simp_all
next
  case (no_questions evs review r' c cs p t p2)
  from no_questions(5) have "ev \<noteq> EvCycle c" by auto
  from after_first [OF no_questions(4) this] obtain pre1 where
    "EvPost p (Inr t) # evs @ [EvPost p2 (Inr review), EvSave r']
       = pre1 @ ev # EvPost q (Inr rv) # rest"
    by blast
  then have "tl (EvPost p (Inr t) # evs @ [EvPost p2 (Inr review), EvSave r'])
      = tl (pre1 @ ev # EvPost q (Inr rv) # rest)" by simp
  then have eq: "evs @ [EvPost p2 (Inr review), EvSave r']
      = tl (pre1 @ [ev]) @ EvPost q (Inr rv) # rest"
    by (simp add: tl_middle)
  have ni: "EvPost q (Inr rv) \<notin> set evs"
    by (rule scrape_event_not_post [OF no_questions(1)])
  from split_after_prefix [OF eq ni] obtain pre2 where
    p2: "[EvPost p2 (Inr review), EvSave r'] = pre2 @ EvPost q (Inr rv) # rest" by blast
  have "pre2 = []"
  proof (cases pre2)
    case Nil
    then show ?thesis .
  next
    case (Cons a pre3)
    with p2 have "[EvSave r'] = pre3 @ EvPost q (Inr rv) # rest" by simp
    then show ?thesis by (cases pre3) simp_all
  qed
  with p2 have "rv = review" "rest = [EvSave r']" by simp_all
  with no_questions(2) show ?case by simp
next
  case (next_cycle evs review r' cs rest0 c p t p2)
  from next_cycle(7) have "ev \<noteq> EvCycle c" by auto
  from after_first [OF next_cycle(6) this] obtain pre1 where
    "EvPost p (Inr t) # evs
       @ [EvPost p2 (Inr review), EvSave r', EvSleep SLEEP_BETWEEN_CYCLES] @ rest0
       = pre1 @ ev # EvPost q (Inr rv) # rest"
    by blast
  then have "tl (EvPost p (Inr t) # evs
       @ [EvPost p2 (Inr review), EvSave r', EvSleep SLEEP_BETWEEN_CYCLES] @ rest0)
      = tl (pre1 @ ev # EvPost q (Inr rv) # rest)" by simp
  then have eq: "evs @ (EvPost p2 (Inr review) # EvSave r' # EvSleep SLEEP_BETWEEN_CYCLES # rest0)
      = tl (pre1 @ [ev]) @ EvPost q (Inr rv) # rest"
    by (simp add: tl_middle)
  have ni: "EvPost q (Inr rv) \<notin> set evs"
    by (rule scrape_event_not_post [OF next_cycle(1)])
  from split_after_prefix [OF eq ni] obtain pre2 where
    p2: "tl (pre1 @ [ev]) = evs @ pre2"
        "EvPost p2 (Inr review) # EvSave r' # EvSleep SLEEP_BETWEEN_CYCLES # rest0
           = pre2 @ EvPost q (Inr rv) # rest"
    by blast
  show ?case
  proof (cases pre2)
    case Nil
    with p2(2) have "rv = review" "rest = EvSave r' # EvSleep SLEEP_BETWEEN_CYCLES # rest0"
      by simp_all
    with next_cycle(2) show ?thesis by simp
  next
    case a: (Cons a pre3)
    with p2(2) have t3: "EvSave r' # EvSleep SLEEP_BETWEEN_CYCLES # rest0
        = pre3 @ EvPost q (Inr rv) # rest" by simp
    then obtain pre4 where b: "pre3 = EvSave r' # pre4"
      and t4: "EvSleep SLEEP_BETWEEN_CYCLES # rest0 = pre4 @ EvPost q (Inr rv) # rest"
      by (cases pre3) simp_all
    from t4 obtain pre5 where c: "pre4 = EvSleep SLEEP_BETWEEN_CYCLES # pre5"
      and t5: "rest0 = pre5 @ EvPost q (Inr rv) # rest"
      by (cases pre4) simp_all
    have "pre5 \<noteq> []"
    proof
      assume "pre5 = []"
      with t5 have r0: "rest0 = EvPost q (Inr rv) # rest" by simp
      show False
      proof (cases cs)
        case Nil
        with next_cycle(4) have "rest0 = []" by (simp add: loop_log_Nil)
        with r0 show False by simp
      next
        case (Cons c' cs')
        with next_cycle(4) obtain rest' where "rest0 = EvCycle c' # rest'"
          using loop_log_Cons by blast
        with r0 show False by simp
      qed
    qed
    then obtain pre6 ev' where d: "pre5 = pre6 @ [ev']"
      by (cases pre5 rule: rev_cases) simp_all
    have "tl (pre1 @ [ev]) = (evs @ a # EvSave r' # EvSleep SLEEP_BETWEEN_CYCLES # pre6) @ [ev']"
      using p2(1) a b c d by simp
    from tl_snoc_last [OF this] have "ev' = ev" by simp
    with t5 d have "rest0 = pre6 @ ev # EvPost q (Inr rv) # rest" by simp
    from next_cycle(5) [OF this next_cycle(7)] show ?thesis .
  qed
qed

section \<open>The policy of the outer loop\<close>

text \<open>
  C3. In every run of the program the log has the form \<open>loop_log\<close> describes for the
  cycle numbers 0 to 4. In particular: the run starts with cycle 0; the cycles started are
  cycle 0, 1, ... up to some number of at most 5; every cycle that starts after another
  event starts immediately after a pause of 2 seconds; the review of a completed cycle (a
  POST that comes back with a text and does not open the cycle) is immediately followed by
  the save of the roadmap, whose questions are those extracted from that review; every save
  follows such a review; after a save with no open question nothing more happens, so no
  further cycle starts; after a save with open questions the program pauses for 2 seconds
  and then, if fewer than 5 cycles have started, starts the next cycle, and otherwise ends.
\<close>

theorem outer_loop_policy:
  assumes "main e file = (res, s')"
  shows "loop_log e [0 ..< 5] (log s')
       \<and> (\<exists>rest. log s' = EvCycle 0 # rest)
       \<and> (\<exists>m\<le>5. filter is_cycle_start (log s') = map EvCycle [0 ..< m])
       \<and> (\<forall>pre ev k rest. log s' = pre @ ev # EvCycle k # rest \<longrightarrow> ev = EvSleep 2)
       \<and> (\<forall>pre ev p review rest.
             log s' = pre @ ev # EvPost p (Inr review) # rest \<and> \<not> is_cycle_start ev \<longrightarrow>
             (\<exists>r rest'. rest = EvSave r # rest'
                \<and> estrai_domande_aperte e review = Inr (open_questions r)))
       \<and> (\<forall>pre r rest. log s' = pre @ EvSave r # rest \<longrightarrow>
             (\<exists>pre' p review. pre = pre' @ [EvPost p (Inr review)]
                \<and> estrai_domande_aperte e review = Inr (open_questions r))
             \<and> (open_questions r = [] \<longrightarrow> rest = [])
             \<and> (open_questions r \<noteq> [] \<longrightarrow>
                  (\<exists>rest'. rest = EvSleep 2 # rest'
                     \<and> (length (filter is_cycle_start pre) < 5 \<longrightarrow>
                          (\<exists>rest''. rest' = EvCycle (length (filter is_cycle_start pre)) # rest''))
                     \<and> (\<not> length (filter is_cycle_start pre) < 5 \<longrightarrow> rest' = []))))"
proof -
  from assms have "main_loop e [0 ..< 5] (init_state file) = (res, s')"
    by (simp add: main_def CYCLES_def)
  from main_loop_log [OF this] have lg: "loop_log e [0 ..< 5] (log s')"
    by (simp add: init_state_def)
  then have tr: "loop_trace e [0 ..< 5] (log s')"
    by (rule loop_log_trace)
  have "[0 ..< 5] = 0 # [1 ..< 5]"
    by (simp add: upt_rec)
  with lg have "loop_log e (0 # [1 ..< 5]) (log s')" by simp
  then have z: "\<exists>rest. log s' = EvCycle 0 # rest"
    by (rule loop_log_Cons)
  from loop_trace_starts [OF tr] obtain m where
    "m \<le> 5" "filter is_cycle_start (log s') = map EvCycle (take m [0 ..< 5])" by auto
  then have a: "\<exists>m\<le>5. filter is_cycle_start (log s') = map EvCycle [0 ..< m]"
    by (auto simp: take_upt)
  have b: "ev = EvSleep 2" if "log s' = pre @ ev # EvCycle k # rest" for pre ev k rest
    using loop_trace_pause [OF tr that] by (simp add: SLEEP_BETWEEN_CYCLES_def)
  have d: "\<exists>r rest'. rest = EvSave r # rest'
                \<and> estrai_domande_aperte e review = Inr (open_questions r)"
    if "log s' = pre @ ev # EvPost p (Inr review) # rest \<and> \<not> is_cycle_start ev"
    for pre ev p review rest
    using that loop_log_review_saved [OF lg, of pre ev p review rest] by blast
  have c: "(\<exists>pre' p review. pre = pre' @ [EvPost p (Inr review)]
                \<and> estrai_domande_aperte e review = Inr (open_questions r))
             \<and> (open_questions r = [] \<longrightarrow> rest = [])
             \<and> (open_questions r \<noteq> [] \<longrightarrow>
                  (\<exists>rest'. rest = EvSleep 2 # rest'
                     \<and> (length (filter is_cycle_start pre) < 5 \<longrightarrow>
                          (\<exists>rest''. rest' = EvCycle (length (filter is_cycle_start pre)) # rest''))
                     \<and> (\<not> length (filter is_cycle_start pre) < 5 \<longrightarrow> rest' = [])))"
    if l: "log s' = pre @ EvSave r # rest" for pre r rest
  proof -
    note sv = loop_trace_save [OF tr l]
    have "\<exists>rest'. rest = EvSleep 2 # rest'
            \<and> (length (filter is_cycle_start pre) < 5 \<longrightarrow>
                 (\<exists>rest''. rest' = EvCycle (length (filter is_cycle_start pre)) # rest''))
            \<and> (\<not> length (filter is_cycle_start pre) < 5 \<longrightarrow> rest' = [])"
      if q: "open_questions r \<noteq> []"
    proof -
      from sv q obtain rest' where r': "rest = EvSleep SLEEP_BETWEEN_CYCLES # rest'" by blast
      with l have "log s' = pre @ EvSave r # EvSleep SLEEP_BETWEEN_CYCLES # rest'" by simp
      from loop_log_after_save [OF lg this]
      have "(length (filter is_cycle_start pre) < 5 \<longrightarrow>
                 (\<exists>rest''. rest' = EvCycle (length (filter is_cycle_start pre)) # rest''))
            \<and> (\<not> length (filter is_cycle_start pre) < 5 \<longrightarrow> rest' = [])"
        by simp
      with r' show ?thesis by (simp add: SLEEP_BETWEEN_CYCLES_def)
    qed
    with sv show ?thesis by blast
  qed
  from lg z a b c d show ?thesis by blast
qed

section \<open>What the orchestrator leaves alone\<close>

lemma ciclo_symbolic_frame:
  assumes "ciclo_symbolic e n s = (res, s')"
  shows "metadata (roadmap_var s') = metadata (roadmap_var s)
         \<and> peer_reviews (roadmap_var s') = peer_reviews (roadmap_var s)"
  using assms by (cases rule: ciclo_symbolic_cases) (simp_all add: merge_roadmap_def)

lemma main_loop_frame:
  assumes "main_loop e cs s = (res, s')"
  shows "metadata (roadmap_var s') = metadata (roadmap_var s)
         \<and> peer_reviews (roadmap_var s') = peer_reviews (roadmap_var s)
         \<and> (\<exists>evs. log s' = log s @ evs
               \<and> (\<forall>r. EvSave r \<in> set evs \<longrightarrow>
                     metadata r = metadata (roadmap_var s)
                     \<and> peer_reviews r = peer_reviews (roadmap_var s))
               \<and> (roadmap_file s' = roadmap_file s
                    \<or> (\<exists>r. roadmap_file s' = Some r \<and> EvSave r \<in> set evs)))"
  using assms
proof (induction cs arbitrary: s)
  case Nil
  let ?kept = "\<lambda>evs. log s' = log s @ evs
      \<and> (\<forall>r. EvSave r \<in> set evs \<longrightarrow>
            metadata r = metadata (roadmap_var s) \<and> peer_reviews r = peer_reviews (roadmap_var s))
      \<and> (roadmap_file s' = roadmap_file s
           \<or> (\<exists>r. roadmap_file s' = Some r \<and> EvSave r \<in> set evs))"
  from Nil have same: "s' = s" by simp
  then have "?kept []"
    by simp
  then have "\<exists>evs. ?kept evs"
    by (rule exI)
  with same show ?case by simp
next
  case (Cons c cs)
  let ?kept = "\<lambda>evs. log s' = log s @ evs
      \<and> (\<forall>r. EvSave r \<in> set evs \<longrightarrow>
            metadata r = metadata (roadmap_var s) \<and> peer_reviews r = peer_reviews (roadmap_var s))
      \<and> (roadmap_file s' = roadmap_file s
           \<or> (\<exists>r. roadmap_file s' = Some r \<and> EvSave r \<in> set evs))"
  from Cons.prems show ?case
  proof (cases rule: main_loop_step)
    case (raised x)
    from ciclo_symbolic_trace [OF raised(1)] obtain body where
      b: "log s' = log s @ EvCycle c # body" "list_all cycle_event body" by blast
    note fr = ciclo_symbolic_frame [OF raised(1)]
    let ?evs = "EvCycle c # body"
    have sv: "\<forall>r. EvSave r \<in> set ?evs \<longrightarrow> metadata r = metadata (roadmap_var s)
                     \<and> peer_reviews r = peer_reviews (roadmap_var s)"
      using cycle_event_not_save [OF b(2)] by simp
    have "?kept ?evs"
      using b(1) sv ciclo_symbolic_file [OF raised(1)] by simp
    then have "\<exists>evs. ?kept evs"
      by (rule exI)
    with fr show ?thesis by simp
  next
    case (stopped s1)
    from ciclo_symbolic_trace [OF stopped(1)] obtain body where
      b: "log s1 = log s @ EvCycle c # body" "list_all cycle_event body" by blast
    note fr = ciclo_symbolic_frame [OF stopped(1)]
    let ?evs = "EvCycle c # body @ [EvSave (roadmap_var s1)]"
    have l: "log s' = log s @ ?evs"
      using b(1) stopped(3) by (simp add: save_roadmap_def)
    have "r = roadmap_var s1" if "EvSave r \<in> set ?evs" for r
      using that cycle_event_not_save [OF b(2), of r] by simp
    with fr have sv: "\<forall>r. EvSave r \<in> set ?evs \<longrightarrow> metadata r = metadata (roadmap_var s)
                     \<and> peer_reviews r = peer_reviews (roadmap_var s)"
      by metis
    have st: "roadmap_file s' = Some (roadmap_var s1)" "roadmap_var s' = roadmap_var s1"
      using stopped(3) by (simp_all add: save_roadmap_def)
    have "EvSave (roadmap_var s1) \<in> set ?evs" by simp
    with st(1) have fl: "\<exists>r. roadmap_file s' = Some r \<and> EvSave r \<in> set ?evs" by blast
    have "?kept ?evs"
      using l sv fl by blast
    then have "\<exists>evs. ?kept evs"
      by (rule exI)
    with fr st(2) show ?thesis by simp
  next
    case (went_on s1)
    from ciclo_symbolic_trace [OF went_on(1)] obtain body where
      b: "log s1 = log s @ EvCycle c # body" "list_all cycle_event body" by blast
    note fr = ciclo_symbolic_frame [OF went_on(1)]
    let ?s2 = "sleep SLEEP_BETWEEN_CYCLES (save_roadmap s1)"
    have s2: "roadmap_var ?s2 = roadmap_var s1" "roadmap_file ?s2 = Some (roadmap_var s1)"
      "log ?s2 = log s @ EvCycle c # body @ [EvSave (roadmap_var s1), EvSleep SLEEP_BETWEEN_CYCLES]"
      using b(1) by (simp_all add: sleep_def save_roadmap_def)
    from Cons.IH [OF went_on(3)] obtain evs where
      ih: "metadata (roadmap_var s') = metadata (roadmap_var s1)"
          "peer_reviews (roadmap_var s') = peer_reviews (roadmap_var s1)"
          "log s' = log ?s2 @ evs"
          "\<forall>r. EvSave r \<in> set evs \<longrightarrow> metadata r = metadata (roadmap_var s1)
                 \<and> peer_reviews r = peer_reviews (roadmap_var s1)"
          "roadmap_file s' = Some (roadmap_var s1) \<or> (\<exists>r. roadmap_file s' = Some r \<and> EvSave r \<in> set evs)"
      unfolding s2(1,2) by blast
    let ?evs = "EvCycle c # body @ [EvSave (roadmap_var s1), EvSleep SLEEP_BETWEEN_CYCLES] @ evs"
    have l: "log s' = log s @ ?evs"
      using ih(3) s2(3) by simp
    have "r = roadmap_var s1 \<or> EvSave r \<in> set evs" if "EvSave r \<in> set ?evs" for r
      using that cycle_event_not_save [OF b(2), of r] by simp
    with ih(4) fr have sv: "\<forall>r. EvSave r \<in> set ?evs \<longrightarrow> metadata r = metadata (roadmap_var s)
                     \<and> peer_reviews r = peer_reviews (roadmap_var s)"
      by metis
    have in1: "EvSave (roadmap_var s1) \<in> set ?evs" by simp
    have in2: "EvSave r \<in> set ?evs" if "EvSave r \<in> set evs" for r
      using that by simp
    from ih(5) in1 in2 have fl: "\<exists>r. roadmap_file s' = Some r \<and> EvSave r \<in> set ?evs"
      by blast
    have "?kept ?evs"
      using l sv fl by blast
    then have "\<exists>evs. ?kept evs"
      by (rule exI)
    with fr ih(1,2) show ?thesis by simp
  qed
qed

lemma main_frame:
  assumes "main e file = (res, s')"
  shows "metadata (roadmap_var s') = metadata (load_roadmap file)"
    "peer_reviews (roadmap_var s') = peer_reviews (load_roadmap file)"
    "EvSave r \<in> set (log s') \<Longrightarrow> metadata r = metadata (load_roadmap file)"
    "EvSave r \<in> set (log s') \<Longrightarrow> peer_reviews r = peer_reviews (load_roadmap file)"
    "roadmap_file s' = file \<or> (\<exists>r. roadmap_file s' = Some r \<and> EvSave r \<in> set (log s'))"
proof -
  from assms have "main_loop e [0 ..< CYCLES] (init_state file) = (res, s')"
    by (simp add: main_def)
  from main_loop_frame [OF this] obtain evs where
    "metadata (roadmap_var s') = metadata (load_roadmap file)"
    "peer_reviews (roadmap_var s') = peer_reviews (load_roadmap file)"
    "log s' = evs"
    "\<forall>r. EvSave r \<in> set evs \<longrightarrow> metadata r = metadata (load_roadmap file)
           \<and> peer_reviews r = peer_reviews (load_roadmap file)"
    "roadmap_file s' = file \<or> (\<exists>r. roadmap_file s' = Some r \<and> EvSave r \<in> set evs)"
    by (auto simp: init_state_def)
  then show "metadata (roadmap_var s') = metadata (load_roadmap file)"
    "peer_reviews (roadmap_var s') = peer_reviews (load_roadmap file)"
    "EvSave r \<in> set (log s') \<Longrightarrow> metadata r = metadata (load_roadmap file)"
    "EvSave r \<in> set (log s') \<Longrightarrow> peer_reviews r = peer_reviews (load_roadmap file)"
    "roadmap_file s' = file \<or> (\<exists>r. roadmap_file s' = Some r \<and> EvSave r \<in> set (log s'))"
    by auto
qed

section \<open>The generator's update\<close>

lemma update_roadmap_reviews:
  assumes "update_roadmap inp g = (gres, g')" and "peer_reviews (self_roadmap g) = Some prs"
  shows "(peer_reviews (self_roadmap g') = Some prs
          \<or> (\<exists>review. peer_review inp = Some review \<and> review \<noteq> []
                \<and> peer_reviews (self_roadmap g') = Some (prs @ [review])))
         \<and> (\<forall>r. gres = Inr r \<longrightarrow>
               peer_reviews r = Some (prs @ (case peer_review inp of
                                                None \<Rightarrow> []
                                              | Some review \<Rightarrow> if review = [] then [] else [review])))"
  using assms
  by (auto simp: update_roadmap_def Let_def split: option.splits if_splits sum.splits)

lemma update_roadmap_saved:
  assumes "update_roadmap inp g = (Inr r, g')"
  shows "gen_file g' = Some r \<and> self_roadmap g' = r
         \<and> (\<exists>m. metadata r = Some m \<and> total_symbols m = length (focus_symbols r)
                \<and> total_questions m = length (open_questions r))"
  using assms
  by (auto simp: update_roadmap_def Let_def split: option.splits if_splits sum.splits)

lemma update_roadmap_failed:
  assumes "update_roadmap inp g = (Inl x, g')"
  shows "gen_file g' = gen_file g"
  using assms
  by (auto simp: update_roadmap_def Let_def split: option.splits if_splits sum.splits)

lemma gen_run:
  "update_roadmap gen_input0 gen_state0 = (Inr gen_roadmap1, \<lparr>self_roadmap = gen_roadmap1, gen_file = Some gen_roadmap1\<rparr>)"
  by (simp add: update_roadmap_def Let_def gen_input0_def gen_state0_def gen_roadmap1_def)

lemma gen_run_bare:
  "update_roadmap gen_input0 gen_state_bare
     = (Inl (KeyError ''web_sources''),
        gen_state_bare\<lparr>self_roadmap :=
          (self_roadmap gen_state_bare)\<lparr>focus_symbols := new_symbols gen_input0,
                                         open_questions := new_questions gen_input0\<rparr>\<rparr>)"
  by (simp add: update_roadmap_def Let_def gen_state_bare_def)

section \<open>The source fetcher\<close>

text \<open>
  C7, as the code has it. For every URL and every behaviour of the network and of the
  parser, \<open>scrape_url\<close> returns a text and never raises. When the request raises, or the
  request succeeds and the parser raises, the text is the diagnostic
  \<open>[Errore scraping URL: EXCEPTION]\<close>, which is not empty. When both succeed, the text
  is the first 2000 characters of the text the parser found in the page. The result is a
  bare string and carries no success flag.
\<close>

theorem scrape_url_never_raises:
  "(\<exists>t. fst (scrape_url e url s) = Inr t)
   \<and> (get_html e (gets s) url = Inl x \<longrightarrow>
        fst (scrape_url e url s) = Inr (''[Errore scraping '' @ url @ '': '' @ str_of_error x @ '']''))
   \<and> (get_html e (gets s) url = Inr html \<and> soup_text e html = Inl x \<longrightarrow>
        fst (scrape_url e url s) = Inr (''[Errore scraping '' @ url @ '': '' @ str_of_error x @ '']''))
   \<and> (get_html e (gets s) url = Inr html \<and> soup_text e html = Inr page \<longrightarrow>
        fst (scrape_url e url s) = Inr (take 2000 page))
   \<and> ''[Errore scraping '' @ url @ '': '' @ str_of_error x @ '']'' \<noteq> []
   \<and> (scrape_body e url s = Inl x \<longrightarrow>
        fst (scrape_url e url s) = Inr (''[Errore scraping '' @ url @ '': '' @ str_of_error x @ '']''))
   \<and> (scrape_body e url s = Inr t \<longrightarrow> fst (scrape_url e url s) = Inr t \<and> length t \<le> 2000)
   \<and> (scrape_body e url s = Inl x \<longleftrightarrow>
        get_html e (gets s) url = Inl x
        \<or> (\<exists>html. get_html e (gets s) url = Inr html \<and> soup_text e html = Inl x))"
proof -
  let ?diag = "''[Errore scraping '' @ url @ '': '' @ str_of_error x @ '']''"
  have a: "\<exists>t. fst (scrape_url e url s) = Inr t"
    by (simp add: scrape_url_def Let_def split: sum.splits)
  have b1: "fst (scrape_url e url s) = Inr ?diag" if "get_html e (gets s) url = Inl x"
    using that by (simp add: scrape_url_def scrape_body_def Let_def)
  have b2: "fst (scrape_url e url s) = Inr ?diag"
    if "get_html e (gets s) url = Inr html" "soup_text e html = Inl x"
    using that by (simp add: scrape_url_def scrape_body_def Let_def)
  have b3: "fst (scrape_url e url s) = Inr (take 2000 page)"
    if "get_html e (gets s) url = Inr html" "soup_text e html = Inr page"
    using that by (simp add: scrape_url_def scrape_body_def Let_def)
  have b: "fst (scrape_url e url s) = Inr ?diag" if "scrape_body e url s = Inl x"
    using that by (simp add: scrape_url_def Let_def)
  have c: "fst (scrape_url e url s) = Inr t \<and> length t \<le> 2000" if "scrape_body e url s = Inr t"
    using that by (auto simp: scrape_url_def scrape_body_def Let_def split: sum.splits)
  have d: "scrape_body e url s = Inl x \<longleftrightarrow>
        get_html e (gets s) url = Inl x
        \<or> (\<exists>html. get_html e (gets s) url = Inr html \<and> soup_text e html = Inl x)"
    by (auto simp: scrape_body_def split: sum.splits)
  have n: "?diag \<noteq> []" by simp
  from a b1 b2 b3 b c d n show ?thesis by blast
qed

lemma env_quiet_fields:
  "get_html env_quiet = (\<lambda>n u. Inl (RequestException ''timed out''))"
  by (simp add: env_quiet_def)

lemma env_page_fields:
  "get_html env_page = (\<lambda>n u. Inr ''[Errore scraping u: timed out]'')"
  "soup_text env_page = (\<lambda>h. Inr h)"
  by (simp_all add: env_page_def env_quiet_def)

lemma env_long_fields:
  "get_html env_long = (\<lambda>n u. Inr (replicate 2001 CHR ''a''))"
  "soup_text env_long = (\<lambda>h. Inr h)"
  by (simp_all add: env_long_def env_quiet_def)

lemma env_bad_markup_fields:
  "get_html env_bad_markup = (\<lambda>n u. Inr ''<'')"
  "soup_text env_bad_markup = (\<lambda>h. Inl (ParserError ''bad markup''))"
  by (simp_all add: env_bad_markup_def env_quiet_def)

theorem scrape_url_never_raises_witness:
  "get_html env_quiet (gets (init_state None)) ''u'' = Inl (RequestException ''timed out'')
   \<and> fst (scrape_url env_quiet ''u'' (init_state None)) = Inr ''[Errore scraping u: timed out]''
   \<and> get_html env_bad_markup (gets (init_state None)) ''u'' = Inr ''<''
   \<and> soup_text env_bad_markup ''<'' = Inl (ParserError ''bad markup'')
   \<and> fst (scrape_url env_bad_markup ''u'' (init_state None)) = Inr ''[Errore scraping u: bad markup]''
   \<and> get_html env_long (gets (init_state None)) ''u'' = Inr (replicate 2001 CHR ''a'')
   \<and> soup_text env_long (replicate 2001 CHR ''a'') = Inr (replicate 2001 CHR ''a'')
   \<and> fst (scrape_url env_long ''u'' (init_state None)) = Inr (replicate 2000 CHR ''a'')
   \<and> scrape_body env_quiet ''u'' (init_state None) = Inl (RequestException ''timed out'')
   \<and> scrape_body env_page ''u'' (init_state None) = Inr ''[Errore scraping u: timed out]''
   \<and> fst (scrape_url env_page ''u'' (init_state None)) = Inr ''[Errore scraping u: timed out]''"
proof -
  let ?s = "init_state None"
  have q: "get_html env_quiet (gets ?s) ''u'' = Inl (RequestException ''timed out'')"
    by (simp add: env_quiet_fields)
  have m: "get_html env_bad_markup (gets ?s) ''u'' = Inr ''<''"
    "soup_text env_bad_markup ''<'' = Inl (ParserError ''bad markup'')"
    by (simp_all add: env_bad_markup_fields)
  have l: "get_html env_long (gets ?s) ''u'' = Inr (replicate 2001 CHR ''a'')"
    "soup_text env_long (replicate 2001 CHR ''a'') = Inr (replicate 2001 CHR ''a'')"
    by (simp_all add: env_long_fields)
  have f: "scrape_body env_quiet ''u'' ?s = Inl (RequestException ''timed out'')"
    by (simp add: scrape_body_def env_quiet_fields)
  have p: "scrape_body env_page ''u'' ?s = Inr ''[Errore scraping u: timed out]''"
    by (simp add: scrape_body_def env_page_fields)
  from scrape_url_never_raises [of env_quiet "''u''" ?s "RequestException ''timed out''"] q
  have r1: "fst (scrape_url env_quiet ''u'' ?s) = Inr ''[Errore scraping u: timed out]''"
    by simp
  from scrape_url_never_raises [of env_bad_markup "''u''" ?s "ParserError ''bad markup''" "''<''"] m
  have r2: "fst (scrape_url env_bad_markup ''u'' ?s) = Inr ''[Errore scraping u: bad markup]''"
    by simp
  from scrape_url_never_raises [of env_long "''u''" ?s _ "replicate 2001 CHR ''a''"
      "replicate 2001 CHR ''a''"] l
  have r3: "fst (scrape_url env_long ''u'' ?s) = Inr (replicate 2000 CHR ''a'')"
    by simp
  from scrape_url_never_raises [of env_page "''u''" ?s _ _ _ "''[Errore scraping u: timed out]''"] p
  have r4: "fst (scrape_url env_page ''u'' ?s) = Inr ''[Errore scraping u: timed out]''"
    by simp
  from q m l f p r1 r2 r3 r4 show ?thesis by simp
qed

text \<open>
  The result of a fetch does not tell a failure from a success: a request that times out
  and a request that succeeds on a page with the same words return the same value.
\<close>

theorem scrape_url_failure_not_marked:
  "scrape_body env_quiet ''u'' (init_state None) = Inl (RequestException ''timed out'')
   \<and> scrape_body env_page ''u'' (init_state None) = Inr ''[Errore scraping u: timed out]''
   \<and> fst (scrape_url env_quiet ''u'' (init_state None)) = fst (scrape_url env_page ''u'' (init_state None))"
  by (simp add: scrape_url_def scrape_body_def env_quiet_fields env_page_fields Let_def)

section \<open>Concrete runs\<close>

lemma demo_extractions:
  "estrai_simboli_concetti env_demo ''Ion'' = [''Ion'']"
  "estrai_simboli_concetti env_demo ''Why is it so?'' = [''Why'']"
  "estrai_domande_aperte env_demo ''Why is it so?'' = Inr [''Why is it so?'']"
  "estrai_simboli_concetti env_demo ''Gas'' = [''Gas'']"
  "estrai_simboli_concetti env_demo ''Ok.'' = []"
  "estrai_domande_aperte env_demo ''Ok.'' = Inr []"
  by code_simp+

lemma env_demo_fields:
  "post env_demo = (\<lambda>n p. if n = 0 then PostBody (Some [(''response'', ''Ion'')])
                               else if n = 1 then PostBody (Some [(''response'', ''Why is it so?'')])
                               else if n = 2 then PostBody (Some [(''response'', ''Gas'')])
                               else PostBody (Some [(''response'', ''Ok.'')]))"
  "get_html env_demo = (\<lambda>n u. Inl (RequestException ''timed out''))"
  "set_iter env_demo = remdups"
  by (simp_all add: env_demo_def env_quiet_def)

lemmas cycle_defs = Let_def ciclo_symbolic_def ask_ollama_def scrape_url_def scrape_body_def
  sleep_def web_search_def merge_roadmap_def replace_char_def

lemma demo_cycle0:
  "ciclo_symbolic env_demo 0 (init_state (Some roadmap_start))
     = (Inr roadmap_after0,
        \<lparr>roadmap_var = roadmap_after0, roadmap_file = Some roadmap_start, posts = 2, gets = 1,
         log = demo_log0\<rparr>)"
  by (simp add: cycle_defs init_state_def load_roadmap_def
      env_demo_fields demo_extractions roadmap_after0_def demo_log0_def roadmap_start_def)

lemma demo_cycle1:
  "ciclo_symbolic env_demo (Suc 0)
       \<lparr>roadmap_var = roadmap_after0, roadmap_file = Some roadmap_after0, posts = 2, gets = Suc 0,
        log = demo_log0 @ [EvSave roadmap_after0, EvSleep 2]\<rparr>
     = (Inr roadmap_after1,
        \<lparr>roadmap_var = roadmap_after1, roadmap_file = Some roadmap_after0, posts = 4, gets = 4,
         log = demo_log0 @ [EvSave roadmap_after0, EvSleep 2, EvCycle 1] @ demo_log1\<rparr>)"
  by (simp add: cycle_defs env_demo_fields demo_extractions roadmap_after0_def roadmap_after1_def
      demo_log1_def roadmap_start_def)

lemma cycle_numbers: "[0 ..< CYCLES] = [0, 1, 2, 3, 4]"
  by (simp add: CYCLES_def upt_rec)

lemma demo_main:
  "main env_demo (Some roadmap_start)
     = (Inr (),
        \<lparr>roadmap_var = roadmap_after1, roadmap_file = Some roadmap_after1, posts = 4, gets = 4,
         log = demo_log0 @ [EvSave roadmap_after0, EvSleep 2, EvCycle 1] @ demo_log1
                 @ [EvSave roadmap_after1]\<rparr>)"
proof -
  have q: "open_questions roadmap_after0 \<noteq> []" "open_questions roadmap_after1 = []"
    by (simp_all add: roadmap_after0_def roadmap_after1_def)
  show ?thesis
    by (simp add: main_def cycle_numbers demo_cycle0 demo_cycle1 save_roadmap_def sleep_def
        SLEEP_BETWEEN_CYCLES_def q)
qed

theorem questions_replaced_witness:
  "open_questions (roadmap_var (init_state (Some roadmap_start))) = [''Q1?'']
   \<and> ciclo_symbolic env_demo 0 (init_state (Some roadmap_start))
       = (Inr roadmap_after0,
          \<lparr>roadmap_var = roadmap_after0, roadmap_file = Some roadmap_start, posts = 2, gets = 1,
           log = demo_log0\<rparr>)
   \<and> estrai_domande_aperte env_demo ''Why is it so?'' = Inr [''Why is it so?'']
   \<and> open_questions roadmap_after0 = [''Why is it so?'']
   \<and> ciclo_symbolic env_demo (Suc 0)
         \<lparr>roadmap_var = roadmap_after0, roadmap_file = Some roadmap_after0, posts = 2, gets = Suc 0,
          log = demo_log0 @ [EvSave roadmap_after0, EvSleep 2]\<rparr>
       = (Inr roadmap_after1,
          \<lparr>roadmap_var = roadmap_after1, roadmap_file = Some roadmap_after0, posts = 4, gets = 4,
           log = demo_log0 @ [EvSave roadmap_after0, EvSleep 2, EvCycle 1] @ demo_log1\<rparr>)
   \<and> estrai_domande_aperte env_demo ''Ok.'' = Inr []
   \<and> open_questions roadmap_after1 = []"
proof -
  from questions_replaced [OF demo_cycle0] obtain review where
    "estrai_domande_aperte env_demo review = Inr (open_questions roadmap_after0)" by blast
  moreover from questions_replaced [OF demo_cycle1] obtain review' where
    "estrai_domande_aperte env_demo review' = Inr (open_questions roadmap_after1)"
    "estrai_domande_aperte env_demo review' = Inr [] \<longrightarrow> open_questions roadmap_after1 = []"
    by blast
  moreover have "open_questions (roadmap_var (init_state (Some roadmap_start))) = [''Q1?'']"
    "open_questions roadmap_after0 = [''Why is it so?'']" "open_questions roadmap_after1 = []"
    by (simp_all add: init_state_def load_roadmap_def roadmap_start_def roadmap_after0_def
        roadmap_after1_def)
  ultimately show ?thesis
    using demo_cycle0 demo_cycle1 demo_extractions(3,6) by simp
qed

lemma env_chatty_fields:
  "post env_chatty = (\<lambda>n p. PostBody (Some [(''response'', ''Why is it so?'')]))"
  "get_html env_chatty = (\<lambda>n u. Inl (RequestException ''timed out''))"
  "set_iter env_chatty = remdups"
  by (simp_all add: env_chatty_def env_quiet_def)

lemma chatty_extractions:
  "estrai_simboli_concetti env_chatty ''Why is it so?'' = [''Why'']"
  "estrai_domande_aperte env_chatty ''Why is it so?'' = Inr [''Why is it so?'']"
  using demo_extractions(2,3)
  unfolding estrai_simboli_concetti_def estrai_domande_aperte_def env_chatty_fields
    env_demo_fields
  by simp_all

lemma chatty_cycle0:
  "ciclo_symbolic env_chatty 0 (init_state None)
     = (Inr roadmap_chatty,
        \<lparr>roadmap_var = roadmap_chatty, roadmap_file = None, posts = 2, gets = 1,
         log = EvCycle 0 # chatty_first\<rparr>)"
  by (simp add: cycle_defs init_state_def load_roadmap_def env_chatty_fields chatty_extractions
      roadmap_chatty_def chatty_first_def default_roadmap_def)

lemma chatty_cycle:
  "ciclo_symbolic env_chatty k
       \<lparr>roadmap_var = roadmap_chatty, roadmap_file = f, posts = a, gets = b, log = l\<rparr>
     = (Inr roadmap_chatty,
        \<lparr>roadmap_var = roadmap_chatty, roadmap_file = f, posts = Suc (Suc a), gets = Suc (Suc b),
         log = l @ EvCycle k # chatty_next\<rparr>)"
  by (simp add: cycle_defs env_chatty_fields chatty_extractions roadmap_chatty_def chatty_next_def
      default_roadmap_def)

lemma chatty_main:
  "fst (main env_chatty None) = Inr ()"
  "log (snd (main env_chatty None)) = chatty_pre @ [EvSave roadmap_chatty, EvSleep 2]"
proof -
  have q: "open_questions roadmap_chatty \<noteq> []"
    by (simp add: roadmap_chatty_def)
  show "fst (main env_chatty None) = Inr ()"
    by (simp add: main_def cycle_numbers chatty_cycle0 chatty_cycle save_roadmap_def sleep_def
        SLEEP_BETWEEN_CYCLES_def q)
  show "log (snd (main env_chatty None)) = chatty_pre @ [EvSave roadmap_chatty, EvSleep 2]"
    by (simp add: main_def cycle_numbers chatty_cycle0 chatty_cycle save_roadmap_def sleep_def
        SLEEP_BETWEEN_CYCLES_def q chatty_pre_def)
qed

theorem outer_loop_policy_witness:
  "log (snd (main env_demo (Some roadmap_start)))
     = (demo_log0 @ [EvSave roadmap_after0]) @ EvSleep 2 # EvCycle 1 # (demo_log1 @ [EvSave roadmap_after1])
   \<and> filter is_cycle_start (log (snd (main env_demo (Some roadmap_start)))) = [EvCycle 0, EvCycle 1]
   \<and> open_questions roadmap_after0 = [''Why is it so?'']
   \<and> estrai_domande_aperte env_demo ''Why is it so?'' = Inr (open_questions roadmap_after0)
   \<and> open_questions roadmap_after1 = []
   \<and> length (filter is_cycle_start demo_log0) = 1
   \<and> log (snd (main env_chatty None)) = chatty_pre @ [EvSave roadmap_chatty, EvSleep 2]
   \<and> open_questions roadmap_chatty = [''Why is it so?'']
   \<and> length (filter is_cycle_start chatty_pre) = 5"
proof -
  let ?s = "snd (main env_demo (Some roadmap_start))"
  have run: "main env_demo (Some roadmap_start) = (Inr (), ?s)"
    by (simp add: demo_main)
  note policy = outer_loop_policy [OF run]
  have l: "log ?s = (demo_log0 @ [EvSave roadmap_after0]) @ EvSleep 2 # EvCycle 1
                      # (demo_log1 @ [EvSave roadmap_after1])"
    by (simp add: demo_main)
  have l1: "log ?s = demo_log0 @ EvSave roadmap_after0
                       # (EvSleep 2 # EvCycle 1 # demo_log1 @ [EvSave roadmap_after1])"
    by (simp add: demo_main)
  have l2: "log ?s = (demo_log0 @ [EvSave roadmap_after0, EvSleep 2, EvCycle 1] @ demo_log1)
                       @ EvSave roadmap_after1 # []"
    by (simp add: demo_main)
  have l3: "log ?s = [EvCycle 0, EvPost (generate_prompt [] [''Q1?'']) (Inr ''Ion''),
                      EvGet ''https://arxiv.org/search/?query=&searchtype=all'']
                @ EvSleep 1
                # EvPost (peer_prompt ''Ion''
                    [''[Errore scraping https://arxiv.org/search/?query=&searchtype=all: timed out]''])
                    (Inr ''Why is it so?'')
                # (EvSave roadmap_after0 # EvSleep 2 # EvCycle 1 # demo_log1 @ [EvSave roadmap_after1])
              \<and> \<not> is_cycle_start (EvSleep 1)"
    by (simp add: demo_main demo_log0_def)
  have q: "open_questions roadmap_after0 = [''Why is it so?'']" "open_questions roadmap_after1 = []"
    by (simp_all add: roadmap_after0_def roadmap_after1_def)
  have n0: "length (filter is_cycle_start demo_log0) = 1"
    by (simp add: demo_log0_def)
  from policy l1 q(1) obtain pre0 p0 review0 where
    "demo_log0 = pre0 @ [EvPost p0 (Inr review0)]"
    "estrai_domande_aperte env_demo review0 = Inr [''Why is it so?'']"
    by metis
  moreover from policy l2 q(2) obtain pre1 p1 review1 where
    "demo_log0 @ [EvSave roadmap_after0, EvSleep 2, EvCycle 1] @ demo_log1 = pre1 @ [EvPost p1 (Inr review1)]"
    "estrai_domande_aperte env_demo review1 = Inr []"
    by metis
  moreover from policy l3 obtain r3 where
    "estrai_domande_aperte env_demo ''Why is it so?'' = Inr (open_questions r3)"
    "EvSave roadmap_after0 = EvSave r3"
    by blast
  moreover have "filter is_cycle_start (log ?s) = [EvCycle 0, EvCycle 1]"
    by (simp add: demo_main demo_log0_def demo_log1_def)
  moreover
  let ?c = "snd (main env_chatty None)"
  have crun: "main env_chatty None = (Inr (), ?c)"
    using chatty_main(1) by (simp add: prod_eq_iff)
  have cl: "log ?c = chatty_pre @ EvSave roadmap_chatty # [EvSleep 2]"
    by (simp add: chatty_main(2))
  have cq: "open_questions roadmap_chatty = [''Why is it so?'']"
    by (simp add: roadmap_chatty_def)
  have cn: "length (filter is_cycle_start chatty_pre) = 5"
    by (simp add: chatty_pre_def chatty_first_def chatty_next_def)
  from outer_loop_policy [OF crun] cl cq cn
  have "\<exists>rest'. [EvSleep 2] = EvSleep 2 # rest' \<and> rest' = []"
    by simp
  ultimately show ?thesis using l q n0 cl cq cn by simp
qed

lemma env_down_fields:
  "post env_down = (\<lambda>n p. PostRaises (RequestException ''connection refused''))"
  by (simp add: env_down_def env_quiet_def)

lemma env_no_field_fields:
  "post env_no_field = (\<lambda>n p. if n = 0 then PostBody (Some [(''response'', ''Plasma'')])
                               else PostBody (Some [(''error'', ''model not found'')]))"
  "get_html env_no_field = (\<lambda>n u. Inl (RequestException ''timed out''))"
  by (simp_all add: env_no_field_def env_quiet_def)

lemma run_down:
  "ciclo_symbolic env_down 0 (init_state None)
     = (Inl (RequestException ''connection refused''),
        \<lparr>roadmap_var = default_roadmap, roadmap_file = None, posts = 1, gets = 0,
         log = [EvCycle 0, EvPost (generate_prompt [] []) (Inl (RequestException ''connection refused''))]\<rparr>)"
  by (simp add: cycle_defs init_state_def load_roadmap_def env_down_fields default_roadmap_def)

lemma run_no_field:
  "ciclo_symbolic env_no_field 0 (init_state None)
     = (Inl (KeyError ''response''),
        \<lparr>roadmap_var = default_roadmap, roadmap_file = None, posts = 2, gets = 1,
         log = [EvCycle 0,
                EvPost (generate_prompt [] []) (Inr ''Plasma''),
                EvGet ''https://arxiv.org/search/?query=&searchtype=all'', EvSleep 1,
                EvPost (peer_prompt ''Plasma''
                    [''[Errore scraping https://arxiv.org/search/?query=&searchtype=all: timed out]''])
                  (Inl (KeyError ''response''))]\<rparr>)"
  by (simp add: cycle_defs init_state_def load_roadmap_def env_no_field_fields default_roadmap_def)

theorem failed_generation_leaves_roadmap_witness:
  "post env_down (posts (init_state None))
       (generate_prompt (focus_symbols (roadmap_var (init_state None)))
          (open_questions (roadmap_var (init_state None))))
     = PostRaises (RequestException ''connection refused'')
   \<and> fst (ciclo_symbolic env_down 0 (init_state None)) = Inl (RequestException ''connection refused'')
   \<and> roadmap_var (snd (ciclo_symbolic env_down 0 (init_state None))) = default_roadmap
   \<and> roadmap_file (snd (ciclo_symbolic env_down 0 (init_state None))) = None
   \<and> fst (main env_down None) = Inl (RequestException ''connection refused'')
   \<and> post env_no_field (posts (init_state None))
       (generate_prompt (focus_symbols (roadmap_var (init_state None)))
          (open_questions (roadmap_var (init_state None))))
     = PostBody (Some [(''response'', ''Plasma'')])
   \<and> fst (scrape_all env_no_field
          (web_search (focus_symbols (roadmap_var (init_state None)))
             (case open_questions (roadmap_var (init_state None)) of q # _ \<Rightarrow> q | [] \<Rightarrow> []))
          [] (init_state None))
     = Inr [''[Errore scraping https://arxiv.org/search/?query=&searchtype=all: timed out]'']
   \<and> post env_no_field (Suc (posts (init_state None)))
       (peer_prompt ''Plasma''
          [''[Errore scraping https://arxiv.org/search/?query=&searchtype=all: timed out]''])
     = PostBody (Some [(''error'', ''model not found'')])
   \<and> map_of [(''error'', ''model not found'')] ''response'' = None
   \<and> fst (ciclo_symbolic env_no_field 0 (init_state None)) = Inl (KeyError ''response'')
   \<and> roadmap_var (snd (ciclo_symbolic env_no_field 0 (init_state None))) = default_roadmap
   \<and> roadmap_file (snd (ciclo_symbolic env_no_field 0 (init_state None))) = None"
proof -
  let ?s = "init_state None"
  let ?down = "ciclo_symbolic env_down 0 ?s"
  let ?nf = "ciclo_symbolic env_no_field 0 ?s"
  let ?x = "RequestException ''connection refused''"
  let ?p = "generate_prompt (focus_symbols (roadmap_var ?s)) (open_questions (roadmap_var ?s))"
  let ?links = "web_search (focus_symbols (roadmap_var ?s))
                  (case open_questions (roadmap_var ?s) of q # _ \<Rightarrow> q | [] \<Rightarrow> [])"
  let ?fonti = "[''[Errore scraping https://arxiv.org/search/?query=&searchtype=all: timed out]'']"
  let ?pp = "peer_prompt ''Plasma'' ?fonti"
  have d1: "?down = (fst ?down, snd ?down)" by simp
  have d2: "PostRaises ?x = PostRaises ?x
      \<or> (PostRaises ?x = PostBody None \<and> ?x = JSONDecodeError ''Expecting value'')
      \<or> (\<exists>obj. PostRaises ?x = PostBody (Some obj) \<and> map_of obj ''response'' = None
            \<and> ?x = KeyError ''response'')"
    by simp
  have d3: "post env_down (posts ?s) ?p = PostRaises ?x"
    by (simp add: env_down_fields)
  then have d3': "post env_down (posts ?s) ?p = PostRaises ?x
      \<or> (\<exists>obj risposta fonti. post env_down (posts ?s) ?p = PostBody (Some obj)
            \<and> map_of obj ''response'' = Some risposta
            \<and> fst (scrape_all env_down ?links [] ?s) = Inr fonti
            \<and> post env_down (Suc (posts ?s)) (peer_prompt risposta fonti) = PostRaises ?x)"
    by (rule disjI1)
  note d = failed_generation_leaves_roadmap [OF d1 d2 d3', of "[1, 2, 3, 4]"]
  let ?bad = "PostBody (Some [(''error'', ''model not found'')])"
  have n1: "?nf = (fst ?nf, snd ?nf)" by simp
  have n2: "?bad = PostRaises (KeyError ''response'')
      \<or> (?bad = PostBody None \<and> KeyError ''response'' = JSONDecodeError ''Expecting value'')
      \<or> (\<exists>obj. ?bad = PostBody (Some obj) \<and> map_of obj ''response'' = None
            \<and> KeyError ''response'' = KeyError ''response'')"
    by simp
  have n3: "post env_no_field (posts ?s) ?p = PostBody (Some [(''response'', ''Plasma'')])"
    by (simp add: env_no_field_fields init_state_def)
  have n4: "map_of [(''response'', ''Plasma'')] ''response'' = Some ''Plasma''"
    by simp
  have n5: "fst (scrape_all env_no_field ?links [] ?s) = Inr ?fonti"
    by (simp add: cycle_defs init_state_def load_roadmap_def default_roadmap_def
        env_no_field_fields)
  have n6: "post env_no_field (Suc (posts ?s)) ?pp = ?bad"
    by (simp add: env_no_field_fields)
  have n3': "post env_no_field (posts ?s) ?p = ?bad
      \<or> (\<exists>obj risposta fonti. post env_no_field (posts ?s) ?p = PostBody (Some obj)
            \<and> map_of obj ''response'' = Some risposta
            \<and> fst (scrape_all env_no_field ?links [] ?s) = Inr fonti
            \<and> post env_no_field (Suc (posts ?s)) (peer_prompt risposta fonti) = ?bad)"
    using n3 n4 n5 n6 by blast
  note n = failed_generation_leaves_roadmap [OF n1 n2 n3', of "[]"]
  have "fst (main env_down None) = Inl ?x"
    using d by (simp add: main_def cycle_numbers)
  moreover have "roadmap_var ?s = default_roadmap" "roadmap_file ?s = None"
    by (simp_all add: init_state_def load_roadmap_def)
  ultimately show ?thesis
    using d d3 n n3 n5 n6 by simp
qed

section \<open>Metadata and peer reviews\<close>

text \<open>
  C4, as the code has it. When the generator's \<open>update_roadmap\<close> returns, the roadmap it
  has written to the file has metadata whose \<open>total_symbols\<close> is the number of
  \<open>focus_symbols\<close> and whose \<open>total_questions\<close> is the number of \<open>open_questions\<close>;
  when it raises, it has not written the file. The orchestrator does not maintain metadata:
  every roadmap it saves has the metadata of the roadmap it loaded, unchanged (none, if the
  loaded roadmap had none).
\<close>

theorem metadata_after_save:
  "(update_roadmap inp g = (Inr gr, g') \<longrightarrow>
      gen_file g' = Some gr
      \<and> (\<exists>m. metadata gr = Some m \<and> total_symbols m = length (focus_symbols gr)
             \<and> total_questions m = length (open_questions gr)))
   \<and> (update_roadmap inp g = (Inl x, g') \<longrightarrow> gen_file g' = gen_file g)
   \<and> (main e file = (res, s') \<longrightarrow>
        (\<forall>r. EvSave r \<in> set (log s') \<longrightarrow> metadata r = metadata (load_roadmap file))
        \<and> (roadmap_file s' = file \<or> (\<exists>r. roadmap_file s' = Some r \<and> EvSave r \<in> set (log s'))))"
proof -
  have a: "gen_file g' = Some gr
      \<and> (\<exists>m. metadata gr = Some m \<and> total_symbols m = length (focus_symbols gr)
             \<and> total_questions m = length (open_questions gr))"
    if "update_roadmap inp g = (Inr gr, g')"
    using update_roadmap_saved [OF that] by simp
  have b: "gen_file g' = gen_file g" if "update_roadmap inp g = (Inl x, g')"
    using that by (rule update_roadmap_failed)
  have c: "(\<forall>r. EvSave r \<in> set (log s') \<longrightarrow> metadata r = metadata (load_roadmap file))
        \<and> (roadmap_file s' = file \<or> (\<exists>r. roadmap_file s' = Some r \<and> EvSave r \<in> set (log s')))"
    if m: "main e file = (res, s')"
    using main_frame(3) [OF m] main_frame(5) [OF m] by blast
  from a b c show ?thesis by blast
qed

theorem metadata_after_save_witness:
  "update_roadmap gen_input0 gen_state0
     = (Inr gen_roadmap1, \<lparr>self_roadmap = gen_roadmap1, gen_file = Some gen_roadmap1\<rparr>)
   \<and> map_option total_symbols (metadata gen_roadmap1) = Some 2
   \<and> length (focus_symbols gen_roadmap1) = 2
   \<and> map_option total_questions (metadata gen_roadmap1) = Some 1
   \<and> length (open_questions gen_roadmap1) = 1
   \<and> fst (update_roadmap gen_input0 gen_state_bare) = Inl (KeyError ''web_sources'')
   \<and> gen_file (snd (update_roadmap gen_input0 gen_state_bare)) = gen_file gen_state_bare
   \<and> EvSave roadmap_after0 \<in> set (log (snd (main env_demo (Some roadmap_start))))
   \<and> metadata roadmap_after0 = metadata roadmap_start"
proof -
  let ?s = "snd (main env_demo (Some roadmap_start))"
  let ?g = "\<lparr>self_roadmap = gen_roadmap1, gen_file = Some gen_roadmap1\<rparr>"
  let ?b = "update_roadmap gen_input0 gen_state_bare"
  have run: "main env_demo (Some roadmap_start) = (Inr (), ?s)"
    by (simp add: demo_main)
  have sv: "EvSave roadmap_after0 \<in> set (log ?s)"
    by (simp add: demo_main)
  have bare: "?b = (Inl (KeyError ''web_sources''), snd ?b)"
    by (simp add: gen_run_bare)
  from metadata_after_save [of gen_input0 gen_state0 gen_roadmap1 ?g _ env_demo "Some roadmap_start"
      "Inr ()" ?s] gen_run run sv
  have "\<exists>m. metadata gen_roadmap1 = Some m \<and> total_symbols m = length (focus_symbols gen_roadmap1)
          \<and> total_questions m = length (open_questions gen_roadmap1)"
    "metadata roadmap_after0 = metadata (load_roadmap (Some roadmap_start))"
    by blast+
  then have m: "map_option total_symbols (metadata gen_roadmap1) = Some (length (focus_symbols gen_roadmap1))"
    "map_option total_questions (metadata gen_roadmap1) = Some (length (open_questions gen_roadmap1))"
    "metadata roadmap_after0 = metadata roadmap_start"
    by (auto simp: load_roadmap_def)
  have n: "length (focus_symbols gen_roadmap1) = 2" "length (open_questions gen_roadmap1) = 1"
    by (simp_all add: gen_roadmap1_def)
  from metadata_after_save [of gen_input0 gen_state_bare _ "snd ?b" "KeyError ''web_sources''"] bare
  have "gen_file (snd ?b) = gen_file gen_state_bare"
    by blast
  moreover have "fst ?b = Inl (KeyError ''web_sources'')"
    by (simp add: gen_run_bare)
  ultimately show ?thesis
    using gen_run sv m n by simp
qed

text \<open>
  Started on a file with consistent metadata, the orchestrator saves a roadmap with three
  symbols and no open question whose metadata still counts no symbol and one question.
\<close>

theorem orchestrator_save_stale_metadata:
  "roadmap_file (snd (main env_demo (Some roadmap_start))) = Some roadmap_after1
   \<and> map_option total_symbols (metadata roadmap_after1) = Some 0
   \<and> length (focus_symbols roadmap_after1) = 3
   \<and> map_option total_questions (metadata roadmap_after1) = Some 1
   \<and> length (open_questions roadmap_after1) = 0
   \<and> map_option total_symbols (metadata roadmap_after1) \<noteq> Some (length (focus_symbols roadmap_after1))
   \<and> map_option total_symbols (metadata roadmap_start) = Some (length (focus_symbols roadmap_start))
   \<and> map_option total_questions (metadata roadmap_start) = Some (length (open_questions roadmap_start))"
proof -
  have "roadmap_file (snd (main env_demo (Some roadmap_start))) = Some roadmap_after1"
    by (simp add: demo_main)
  then show ?thesis
    by (simp add: roadmap_after1_def roadmap_start_def)
qed

text \<open>
  C8, as the code has it. The orchestrator never changes \<open>peer_reviews\<close>: a cycle and
  the whole run leave the value as loaded, in memory and in every roadmap saved, so no
  record is removed or modified, and none is appended. The generator's
  \<open>update_roadmap\<close> leaves the existing records in place and appends the peer review at
  the end when there is one (not \<open>None\<close> and not empty); when it returns, the records
  are the old ones followed by that review, or the old ones alone when there is none.
\<close>

theorem peer_reviews_append_only:
  "(ciclo_symbolic e n s = (res, s') \<longrightarrow> peer_reviews (roadmap_var s') = peer_reviews (roadmap_var s))
   \<and> (main e file = (mres, ms') \<longrightarrow>
        peer_reviews (roadmap_var ms') = peer_reviews (load_roadmap file)
        \<and> (\<forall>r. EvSave r \<in> set (log ms') \<longrightarrow> peer_reviews r = peer_reviews (load_roadmap file)))
   \<and> (update_roadmap inp g = (gres, g') \<and> peer_reviews (self_roadmap g) = Some prs \<longrightarrow>
        (peer_reviews (self_roadmap g') = Some prs
          \<or> (\<exists>review. peer_review inp = Some review \<and> review \<noteq> []
                \<and> peer_reviews (self_roadmap g') = Some (prs @ [review])))
        \<and> (\<forall>r. gres = Inr r \<longrightarrow>
               peer_reviews r = Some (prs @ (case peer_review inp of
                                                None \<Rightarrow> []
                                              | Some review \<Rightarrow> if review = [] then [] else [review]))))"
proof -
  have a: "peer_reviews (roadmap_var s') = peer_reviews (roadmap_var s)"
    if "ciclo_symbolic e n s = (res, s')"
    using ciclo_symbolic_frame [OF that] by simp
  have b: "peer_reviews (roadmap_var ms') = peer_reviews (load_roadmap file)
        \<and> (\<forall>r. EvSave r \<in> set (log ms') \<longrightarrow> peer_reviews r = peer_reviews (load_roadmap file))"
    if m: "main e file = (mres, ms')"
    using main_frame(2) [OF m] main_frame(4) [OF m] by blast
  have c: "(peer_reviews (self_roadmap g') = Some prs
          \<or> (\<exists>review. peer_review inp = Some review \<and> review \<noteq> []
                \<and> peer_reviews (self_roadmap g') = Some (prs @ [review])))
        \<and> (\<forall>r. gres = Inr r \<longrightarrow>
               peer_reviews r = Some (prs @ (case peer_review inp of
                                                None \<Rightarrow> []
                                              | Some review \<Rightarrow> if review = [] then [] else [review])))"
    if "update_roadmap inp g = (gres, g')" "peer_reviews (self_roadmap g) = Some prs"
    using update_roadmap_reviews [OF that] .
  from a b c show ?thesis by blast
qed

theorem peer_reviews_append_only_witness:
  "ciclo_symbolic env_demo 0 (init_state (Some roadmap_start))
     = (Inr roadmap_after0,
        \<lparr>roadmap_var = roadmap_after0, roadmap_file = Some roadmap_start, posts = 2, gets = 1,
         log = demo_log0\<rparr>)
   \<and> peer_reviews roadmap_after0 = peer_reviews roadmap_start
   \<and> EvSave roadmap_after1 \<in> set (log (snd (main env_demo (Some roadmap_start))))
   \<and> peer_reviews roadmap_after1 = peer_reviews roadmap_start
   \<and> update_roadmap gen_input0 gen_state0
       = (Inr gen_roadmap1, \<lparr>self_roadmap = gen_roadmap1, gen_file = Some gen_roadmap1\<rparr>)
   \<and> peer_reviews (self_roadmap gen_state0) = Some []
   \<and> peer_review gen_input0 = Some [(''reviewer'', ''AutoReviewer''), (''confidence'', ''0.8'')]
   \<and> peer_reviews gen_roadmap1 = Some [[(''reviewer'', ''AutoReviewer''), (''confidence'', ''0.8'')]]"
proof -
  let ?s1 = "\<lparr>roadmap_var = roadmap_after0, roadmap_file = Some roadmap_start, posts = 2, gets = 1,
         log = demo_log0\<rparr>"
  let ?s = "snd (main env_demo (Some roadmap_start))"
  let ?g = "\<lparr>self_roadmap = gen_roadmap1, gen_file = Some gen_roadmap1\<rparr>"
  have run: "main env_demo (Some roadmap_start) = (Inr (), ?s)"
    by (simp add: demo_main)
  have sv: "EvSave roadmap_after1 \<in> set (log ?s)"
    by (simp add: demo_main)
  have g0: "peer_reviews (self_roadmap gen_state0) = Some []"
    by (simp add: gen_state0_def)
  note t = peer_reviews_append_only [of env_demo 0 "init_state (Some roadmap_start)" "Inr roadmap_after0" ?s1
      "Some roadmap_start" "Inr ()" ?s gen_input0 gen_state0 "Inr gen_roadmap1" ?g "[]"]
  from t demo_cycle0 have "peer_reviews roadmap_after0 = peer_reviews roadmap_start"
    by (simp add: init_state_def load_roadmap_def)
  moreover from t run sv have "peer_reviews roadmap_after1 = peer_reviews roadmap_start"
    by (simp add: load_roadmap_def)
  moreover from t gen_run g0
  have "peer_reviews gen_roadmap1 = Some [[(''reviewer'', ''AutoReviewer''), (''confidence'', ''0.8'')]]"
    by (simp add: gen_input0_def)
  ultimately show ?thesis
    using demo_cycle0 sv gen_run g0 by (simp add: gen_input0_def)
qed

text \<open>
  A cycle of the orchestrator receives a review and completes; the roadmap's
  \<open>peer_reviews\<close> is as empty as before.
\<close>

theorem cycle_review_not_recorded:
  "fst (ciclo_symbolic env_demo 0 (init_state (Some roadmap_start))) = Inr roadmap_after0
   \<and> last (log (snd (ciclo_symbolic env_demo 0 (init_state (Some roadmap_start)))))
       = EvPost (peer_prompt ''Ion''
                  [''[Errore scraping https://arxiv.org/search/?query=&searchtype=all: timed out]''])
                (Inr ''Why is it so?'')
   \<and> peer_reviews (roadmap_var (init_state (Some roadmap_start))) = Some []
   \<and> peer_reviews roadmap_after0 = Some []"
proof -
  have "peer_reviews (roadmap_var (init_state (Some roadmap_start))) = Some []"
    by (simp add: init_state_def load_roadmap_def roadmap_start_def)
  moreover have "peer_reviews roadmap_after0 = Some []"
    by (simp add: roadmap_after0_def roadmap_start_def)
  ultimately show ?thesis
    by (simp add: demo_cycle0 demo_log0_def)
qed

end
